theory Spec2Isabelle
  imports Main "HOL-Library.AList" "HOL-Library.Word" "HOL-Library.Sublist"
begin

section \<open>Strings and bytes\<close>

text \<open>
  A JavaScript string is modelled as a \<^typ>\<open>string\<close> holding its UTF-8 bytes, and a
  \<open>Uint8Array\<close> as a list of 8-bit words.
\<close>

type_synonym bytes = "8 word list"

text \<open>\<open>s.split(sep)\<close> for a one-character separator: \<open>"".split("/")\<close> is \<open>[""]\<close>.\<close>

fun split_on :: "char \<Rightarrow> string \<Rightarrow> string list" where
  "split_on sep [] = [[]]"
| "split_on sep (c # cs) =
     (if c = sep then [] # split_on sep cs
      else (case split_on sep cs of [] \<Rightarrow> [[c]] | s # ss \<Rightarrow> (c # s) # ss))"

text \<open>\<open>parts.join(sep)\<close>.\<close>

fun join_with :: "char \<Rightarrow> string list \<Rightarrow> string" where
  "join_with sep [] = []"
| "join_with sep [s] = s"
| "join_with sep (s # t # ts) = s @ sep # join_with sep (t # ts)"

section \<open>The remote store client (estorageClient.ts)\<close>

datatype dir_entry = DirEntry_dir string | DirEntry_file string string

fun entry_name :: "dir_entry \<Rightarrow> string" where
  "entry_name (DirEntry_dir nm) = nm"
| "entry_name (DirEntry_file nm sha256) = nm"

text \<open>
  A \<open>Response\<close>: the three fields \<open>ensureOk\<close> reads, and the body as the caller reads it
  (\<open>res.json()\<close> at the type of the caller's cast, or \<open>res.arrayBuffer()\<close>); \<open>None\<close> when
  reading the body rejects.
\<close>

record 'a response =
  ok :: bool
  status :: nat
  statusText :: string
  payload :: "'a option"

record zip_file =
  file_name :: string
  file_bytes :: bytes

text \<open>
  The global \<open>fetch\<close>, as each client function calls it: a URL (and for the upload the
  form's file) to a response, \<open>None\<close> when the request itself rejects.
\<close>

record net =
  get_json :: "string \<Rightarrow> dir_entry list response option"
  get_bytes :: "string \<Rightarrow> bytes response option"
  post_zip :: "string \<Rightarrow> zip_file \<Rightarrow> (bool \<times> string) response option"

datatype client_error = FetchRejected | NotOk string nat string | BodyRejected

definition backend :: string where
  "backend = ''''"

definition ensureOk :: "'a response \<Rightarrow> string \<Rightarrow> client_error + unit" where
  "ensureOk res label =
     (if \<not> ok res then Inl (NotOk label (status res) (statusText res)) else Inr ())"

text \<open>
  The builtin \<open>encodeURIComponent\<close> on a well-formed string: every UTF-8 byte that is not
  an unreserved character becomes \<open>%XX\<close>.
\<close>

definition unreserved :: "char \<Rightarrow> bool" where
  "unreserved c \<longleftrightarrow>
     c \<in> set (''ABCDEFGHIJKLMNOPQRSTUVWXYZabcdefghijklmnopqrstuvwxyz0123456789-_.!~*()'' @ [CHR 0x27])"

definition hex_digit :: "nat \<Rightarrow> char" where
  "hex_digit n = ''0123456789ABCDEF'' ! (n mod 16)"

definition encodeURIComponent :: "string \<Rightarrow> string" where
  "encodeURIComponent s =
     concat (map (\<lambda>c. if unreserved c then [c]
                       else [CHR ''%'', hex_digit (of_char c div 16), hex_digit (of_char c)]) s)"

definition encodePath :: "string \<Rightarrow> string" where
  "encodePath path =
     (let trimmed = dropWhile (\<lambda>c. c = CHR ''/'') path in
      if trimmed = [] then []
      else join_with (CHR ''/'') (map encodeURIComponent (split_on (CHR ''/'') trimmed)))"

definition read_response :: "string \<Rightarrow> 'a response option \<Rightarrow> client_error + 'a" where
  "read_response label r =
     (case r of
        None \<Rightarrow> Inl FetchRejected
      | Some res \<Rightarrow>
          (case ensureOk res label of
             Inl e \<Rightarrow> Inl e
           | Inr _ \<Rightarrow> (case payload res of None \<Rightarrow> Inl BodyRejected | Some v \<Rightarrow> Inr v)))"

definition uploadDBZip :: "net \<Rightarrow> string \<Rightarrow> zip_file \<Rightarrow> client_error + (bool \<times> string)" where
  "uploadDBZip S dbName zipf =
     (let url = backend @ ''/estorage/'' @ encodeURIComponent dbName in
      read_response ''uploadDBZip'' (post_zip S url zipf))"

definition listDBDir :: "net \<Rightarrow> string \<Rightarrow> string \<Rightarrow> client_error + dir_entry list" where
  "listDBDir S dbName path =
     (let enc = encodePath path;
          url = backend @ ''/estorage/'' @ encodeURIComponent dbName @ ''/'' @ enc in
      read_response ''listDBDir'' (get_json S url))"

definition fetchDBFileBytes :: "net \<Rightarrow> string \<Rightarrow> string \<Rightarrow> client_error + bytes" where
  "fetchDBFileBytes S dbName path =
     (let enc = encodePath path;
          url = backend @ ''/estorage/'' @ encodeURIComponent dbName @ ''/'' @ enc in
      read_response ''fetchDBFileBytes'' (get_bytes S url))"

section \<open>The virtual filesystem capability\<close>

text \<open>
  \<open>pfs\<close> is the promise interface of the filesystem: \<open>stat\<close>, \<open>mkdir\<close>, \<open>writeFile\<close> and
  \<open>readdir\<close> over a persistent state. A rejected promise is \<open>Inl\<close>; the state is then
  unchanged.
\<close>

datatype fs_error = ENOENT | EEXIST | ENOTDIR | EISDIR | EINVAL

datatype node_type = Dir_type | File_type

record 'fs pfs =
  stat :: "'fs \<Rightarrow> string \<Rightarrow> fs_error + node_type"
  mkdir :: "'fs \<Rightarrow> string \<Rightarrow> fs_error + 'fs"
  writeFile :: "'fs \<Rightarrow> string \<Rightarrow> bytes \<Rightarrow> fs_error + 'fs"
  readdir :: "'fs \<Rightarrow> string \<Rightarrow> fs_error + string list"

subsection \<open>The lightning-fs package\<close>

text \<open>
  The filesystem \<open>downloadAssets\<close> opens is the third-party package lightning-fs, which is
  not part of the repository. This is a model of the four operations used: a tree of
  directories (their entries in insertion order, as the package's \<open>Map\<close> keeps them) and
  files. A path is normalised first (empty and \<open>.\<close> segments dropped, \<open>..\<close> stepping up,
  an error above the root); \<open>mkdir\<close> and \<open>writeFile\<close> look the parent directory up and
  fail with \<open>ENOENT\<close> when it is missing: neither creates intermediate directories.
\<close>

datatype inode = File bytes | Dir "(string \<times> inode) list"

fun norm_step :: "string list option \<Rightarrow> string \<Rightarrow> string list option" where
  "norm_step None seg = None"
| "norm_step (Some acc) seg =
     (if seg = [] \<or> seg = ''.'' then Some acc
      else if seg = ''..'' then (if acc = [] then None else Some (butlast acc))
      else Some (acc @ [seg]))"

definition path_parts :: "string \<Rightarrow> string list option" where
  "path_parts p = foldl norm_step (Some []) (split_on (CHR ''/'') p)"

fun lookup :: "inode \<Rightarrow> string list \<Rightarrow> inode option" where
  "lookup n [] = Some n"
| "lookup (File d) (c # cs) = None"
| "lookup (Dir es) (c # cs) = (case map_of es c of None \<Rightarrow> None | Some n \<Rightarrow> lookup n cs)"

text \<open>
  \<open>modify cs f root\<close> applies \<open>f\<close> to the entries of the directory at \<open>cs\<close>; an entry
  that is replaced keeps its place, as \<open>Map.set\<close> does.
\<close>

fun modify ::
  "string list \<Rightarrow> ((string \<times> inode) list \<Rightarrow> fs_error + (string \<times> inode) list) \<Rightarrow> inode
   \<Rightarrow> fs_error + inode" where
  "modify cs f (File d) = Inl ENOENT"
| "modify [] f (Dir es) = (case f es of Inl e \<Rightarrow> Inl e | Inr es' \<Rightarrow> Inr (Dir es'))"
| "modify (c # cs) f (Dir es) =
     (case map_of es c of
        None \<Rightarrow> Inl ENOENT
      | Some n \<Rightarrow>
          (case modify cs f n of
             Inl e \<Rightarrow> Inl e
           | Inr n' \<Rightarrow> Inr (Dir (AList.update c n' es))))"

definition lfs_stat :: "inode \<Rightarrow> string \<Rightarrow> fs_error + node_type" where
  "lfs_stat fs p =
     (case path_parts p of
        None \<Rightarrow> Inl EINVAL
      | Some cs \<Rightarrow>
          (case lookup fs cs of
             None \<Rightarrow> Inl ENOENT
           | Some (File d) \<Rightarrow> Inr File_type
           | Some (Dir es) \<Rightarrow> Inr Dir_type))"

definition mkdir_entry :: "string \<Rightarrow> (string \<times> inode) list \<Rightarrow> fs_error + (string \<times> inode) list" where
  "mkdir_entry b es = (if map_of es b \<noteq> None then Inl EEXIST else Inr (es @ [(b, Dir [])]))"

definition lfs_mkdir :: "inode \<Rightarrow> string \<Rightarrow> fs_error + inode" where
  "lfs_mkdir fs p =
     (case path_parts p of
        None \<Rightarrow> Inl EINVAL
      | Some cs \<Rightarrow>
          if cs = [] then Inl EEXIST
          else modify (butlast cs) (mkdir_entry (last cs)) fs)"

definition write_entry ::
  "string \<Rightarrow> bytes \<Rightarrow> (string \<times> inode) list \<Rightarrow> fs_error + (string \<times> inode) list" where
  "write_entry b data es =
     (case map_of es b of
        Some (Dir ds) \<Rightarrow> Inl EISDIR
      | _ \<Rightarrow> Inr (AList.update b (File data) es))"

definition lfs_writeFile :: "inode \<Rightarrow> string \<Rightarrow> bytes \<Rightarrow> fs_error + inode" where
  "lfs_writeFile fs p data =
     (case path_parts p of
        None \<Rightarrow> Inl EINVAL
      | Some cs \<Rightarrow>
          if cs = [] then Inl EISDIR
          else modify (butlast cs) (write_entry (last cs) data) fs)"

definition lfs_readdir :: "inode \<Rightarrow> string \<Rightarrow> fs_error + string list" where
  "lfs_readdir fs p =
     (case path_parts p of
        None \<Rightarrow> Inl EINVAL
      | Some cs \<Rightarrow>
          (case lookup fs cs of
             None \<Rightarrow> Inl ENOENT
           | Some (File d) \<Rightarrow> Inl ENOTDIR
           | Some (Dir es) \<Rightarrow> Inr (map fst es)))"

definition lightningfs :: "inode pfs" where
  "lightningfs =
     \<lparr>stat = lfs_stat, mkdir = lfs_mkdir, writeFile = lfs_writeFile, readdir = lfs_readdir\<rparr>"

section \<open>The asset mirror (main.ts)\<close>

text \<open>What a \<open>catch\<close> clause can receive.\<close>

datatype err = ClientError client_error | FsError fs_error | Thrown string

text \<open>
  The observable steps of a run, in order: each call to the remote store and to the
  filesystem with how it ended, and each console line.
\<close>

datatype event =
    EvList string string bool
  | EvStat string "fs_error + node_type"
  | EvMkdir string bool
  | EvFetch string string bool
  | EvWrite string bytes bool
  | ConsoleLog string
  | ConsoleError string
  | ConsoleErrorObj err

datatype 'e outcome = Done | Threw 'e | Diverged

text \<open>The connectors of \<open>printTree\<close>, as UTF-8 bytes.\<close>

definition conn_last :: string where
  "conn_last = [CHR 0xE2, CHR 0x94, CHR 0x94, CHR 0xE2, CHR 0x94, CHR 0x80,
                CHR 0xE2, CHR 0x94, CHR 0x80, CHR 0x20]"

definition conn_mid :: string where
  "conn_mid = [CHR 0xE2, CHR 0x94, CHR 0x9C, CHR 0xE2, CHR 0x94, CHR 0x80,
               CHR 0xE2, CHR 0x94, CHR 0x80, CHR 0x20]"

definition indent_last :: string where
  "indent_last = ''    ''"

definition indent_mid :: string where
  "indent_mid = [CHR 0xE2, CHR 0x94, CHR 0x82, CHR 0x20, CHR 0x20, CHR 0x20]"

definition child_path :: "string \<Rightarrow> string \<Rightarrow> string" where
  "child_path dir nm = (if dir = ''/'' then ''/'' @ nm else dir @ ''/'' @ nm)"

text \<open>
  \<open>printTree\<close>: the lines it logs and how it ended. The recursion follows the paths the
  filesystem returns, so it carries fuel: the first argument bounds the depth of the
  recursion, and \<open>Diverged\<close> is the run that needs more. The \<open>for\<close> loop over
  \<open>entries\<close> is \<open>printTree_loop\<close> on the entries still to visit; \<open>isLast\<close> holds when none
  is left after the current one.
\<close>

fun printTree :: "nat \<Rightarrow> 'fs pfs \<Rightarrow> 'fs \<Rightarrow> string \<Rightarrow> string \<Rightarrow> string list \<times> fs_error outcome"
  and printTree_loop ::
    "nat \<Rightarrow> 'fs pfs \<Rightarrow> 'fs \<Rightarrow> string \<Rightarrow> string \<Rightarrow> string list \<Rightarrow> string list \<times> fs_error outcome"
where
  "printTree 0 P fs dir pfx = ([], Diverged)"
| "printTree (Suc n) P fs dir pfx =
     (case readdir P fs dir of
        Inl e \<Rightarrow> ([], Threw e)
      | Inr entries \<Rightarrow> printTree_loop n P fs dir pfx entries)"
| "printTree_loop n P fs dir pfx [] = ([], Done)"
| "printTree_loop n P fs dir pfx (nm # rest) =
     (let isLast = (rest = []);
          path = child_path dir nm in
      case stat P fs path of
        Inl e \<Rightarrow> ([], Threw e)
      | Inr t \<Rightarrow>
          (let connector = (if isLast then conn_last else conn_mid);
               line = pfx @ connector @ nm in
           if t = Dir_type then
             (let newPrefix = pfx @ (if isLast then indent_last else indent_mid) in
              case printTree n P fs path newPrefix of
                (sub, Done) \<Rightarrow>
                  (case printTree_loop n P fs dir pfx rest of
                     (others, r) \<Rightarrow> (line # sub @ others, r))
              | (sub, r) \<Rightarrow> (line # sub, r))
           else
             (case printTree_loop n P fs dir pfx rest of
                (others, r) \<Rightarrow> (line # others, r))))"

text \<open>
  The body of \<open>downloadAssets\<close> for one database, in its three parts. \<open>ensure_dir\<close> is
  the first \<open>try\<close>/\<open>catch\<close> (lines 31 to 44): the \<open>stat\<close> of \<open>/db\<close> with the check of its
  type, and in the handler \<open>mkdir\<close> with a handler of its own that only logs.
\<close>

definition is_type :: "'fs pfs \<Rightarrow> 'fs \<Rightarrow> string \<Rightarrow> node_type \<Rightarrow> string \<Rightarrow> err + unit" where
  "is_type P fs path t msg =
     (case stat P fs path of
        Inl e \<Rightarrow> Inl (FsError e)
      | Inr t' \<Rightarrow> if t' \<noteq> t then Inl (Thrown msg) else Inr ())"

definition ensure_dir :: "'fs pfs \<Rightarrow> 'fs \<Rightarrow> string \<Rightarrow> 'fs \<times> event list" where
  "ensure_dir P fs db =
     (let path = ''/'' @ db in
      case is_type P fs path Dir_type ''Path exists but is not a directory'' of
        Inr u \<Rightarrow> (fs, [EvStat path (stat P fs path)])
      | Inl e \<Rightarrow>
          (case mkdir P fs path of
             Inr fs' \<Rightarrow> (fs', [EvStat path (stat P fs path), EvMkdir path True])
           | Inl e' \<Rightarrow>
               (fs, [EvStat path (stat P fs path), EvMkdir path False,
                     ConsoleError (''Failed to make a lightningfs '' @ db @ '' folder'')])))"

definition asset_path :: "string \<Rightarrow> string \<Rightarrow> string" where
  "asset_path db nm = ''/'' @ db @ ''/assets/'' @ nm"

text \<open>One turn of the loop over \<open>assetFiles\<close> (lines 46 to 65).\<close>

definition sync_asset :: "'fs pfs \<Rightarrow> net \<Rightarrow> string \<Rightarrow> 'fs \<Rightarrow> dir_entry \<Rightarrow> 'fs \<times> event list" where
  "sync_asset P S db fs assetFile =
     (let nm = entry_name assetFile;
          path = asset_path db nm in
      case is_type P fs path File_type ''Path exists but is not a asset file'' of
        Inr u \<Rightarrow> (fs, [EvStat path (stat P fs path)])
      | Inl e \<Rightarrow>
          (case fetchDBFileBytes S db (''assets/'' @ nm) of
             Inl e' \<Rightarrow>
               (fs, [EvStat path (stat P fs path), EvFetch db (''assets/'' @ nm) False,
                     ConsoleError (''Failed to write to lightningfs for '' @ db @ ''/assets/'' @ nm)])
           | Inr data \<Rightarrow>
               (case writeFile P fs path data of
                  Inl e' \<Rightarrow>
                    (fs, [EvStat path (stat P fs path), EvFetch db (''assets/'' @ nm) True,
                          EvWrite path data False,
                          ConsoleError (''Failed to write to lightningfs for '' @ db @ ''/assets/'' @ nm)])
                | Inr fs' \<Rightarrow>
                    (fs', [EvStat path (stat P fs path), EvFetch db (''assets/'' @ nm) True,
                           EvWrite path data True,
                           ConsoleLog (''Wrote asset file at '' @ db @ ''/assets/'' @ nm)]))))"

fun sync_assets :: "'fs pfs \<Rightarrow> net \<Rightarrow> string \<Rightarrow> 'fs \<Rightarrow> dir_entry list \<Rightarrow> 'fs \<times> event list" where
  "sync_assets P S db fs [] = (fs, [])"
| "sync_assets P S db fs (assetFile # rest) =
     (case sync_asset P S db fs assetFile of
        (fs1, ev1) \<Rightarrow>
          (case sync_assets P S db fs1 rest of
             (fs2, ev2) \<Rightarrow> (fs2, ev1 @ ev2)))"

text \<open>
  The outer \<open>try\<close>/\<open>catch\<close> of one database (lines 19 to 72). Its handler
  (\<open>outer_catch\<close>) receives a rejected listing and whatever \<open>printTree\<close> throws. The
  third component of the result is \<open>False\<close> when \<open>printTree\<close> did not return within the
  fuel.
\<close>

definition outer_catch :: "string \<Rightarrow> err \<Rightarrow> event list" where
  "outer_catch db e =
     [ConsoleError (''Failed to find asset dir for '' @ db), ConsoleErrorObj e]"

definition sync_db :: "nat \<Rightarrow> 'fs pfs \<Rightarrow> net \<Rightarrow> 'fs \<Rightarrow> string \<Rightarrow> 'fs \<times> event list \<times> bool" where
  "sync_db fuel P S fs db =
     (case listDBDir S db ''assets'' of
        Inl e \<Rightarrow> (fs, EvList db ''assets'' False # outer_catch db (ClientError e), True)
      | Inr assetFiles \<Rightarrow>
          (case ensure_dir P fs db of
             (fs1, ev1) \<Rightarrow>
               (case sync_assets P S db fs1 assetFiles of
                  (fs2, ev2) \<Rightarrow>
                    (case printTree fuel P fs2 ''/'' [] of
                       (out, r) \<Rightarrow>
                         (fs2,
                          EvList db ''assets'' True # ev1 @ ev2 @ map ConsoleLog out @
                          (case r of Threw e \<Rightarrow> outer_catch db (FsError e) | _ \<Rightarrow> []),
                          r \<noteq> Diverged)))))"

text \<open>
  \<open>downloadAssets\<close>: the loop over \<open>dbs\<close>; an element of the list is the \<open>name\<close> of a
  \<open>dbObj\<close>. Every call opens the same persistent store (\<open>wipe: false\<close>), so the
  filesystem state is threaded through.
\<close>

fun downloadAssets :: "nat \<Rightarrow> 'fs pfs \<Rightarrow> net \<Rightarrow> 'fs \<Rightarrow> string list \<Rightarrow> 'fs \<times> event list \<times> bool" where
  "downloadAssets fuel P S fs [] = (fs, [], True)"
| "downloadAssets fuel P S fs (db # rest) =
     (case sync_db fuel P S fs db of
        (fs1, ev1, returned) \<Rightarrow>
          if \<not> returned then (fs1, ev1, False)
          else (case downloadAssets fuel P S fs1 rest of
                  (fs2, ev2, r) \<Rightarrow> (fs2, ev1 @ ev2, r)))"

subsection \<open>uploadRepos\<close>

text \<open>
  \<open>name.replace(/\.zip$/i, "")\<close>: the regular expression is tried at each position from
  the left, and matches where exactly four characters are left and they are \<open>.zip\<close> in
  either case; the first match is replaced by the empty string.
\<close>

definition matches_zip_end :: "string \<Rightarrow> bool" where
  "matches_zip_end s \<longleftrightarrow>
     (case s of
        [c0, c1, c2, c3] \<Rightarrow>
          c0 = CHR ''.'' \<and> (c1 = CHR ''z'' \<or> c1 = CHR ''Z'') \<and>
          (c2 = CHR ''i'' \<or> c2 = CHR ''I'') \<and> (c3 = CHR ''p'' \<or> c3 = CHR ''P'')
      | _ \<Rightarrow> False)"

fun replace_zip :: "string \<Rightarrow> string" where
  "replace_zip [] = []"
| "replace_zip (c # cs) = (if matches_zip_end (c # cs) then [] else c # replace_zip cs)"

text \<open>
  \<open>uploadRepos\<close>: the uploads requested, in order, and how the call ended; a rejected
  upload is not caught, so it ends the loop.
\<close>

fun uploadRepos :: "net \<Rightarrow> zip_file list \<Rightarrow> (string \<times> zip_file) list \<times> (client_error + unit)" where
  "uploadRepos S [] = ([], Inr ())"
| "uploadRepos S (f # files) =
     (let dbName = replace_zip (file_name f) in
      case uploadDBZip S dbName f of
        Inl e \<Rightarrow> ([(dbName, f)], Inl e)
      | Inr res \<Rightarrow>
          (case uploadRepos S files of
             (calls, r) \<Rightarrow> ((dbName, f) # calls, r)))"

section \<open>The routing kill switch (main.ts, initRoutingKillSwitch)\<close>

subsection \<open>hardNavigate\<close>

text \<open>
  The argument of \<open>hardNavigate\<close> is any JavaScript value. \<open>JObject r\<close> is a value that is
  neither \<open>undefined\<close>, \<open>null\<close> nor a string, with \<open>r\<close> what \<open>String(url)\<close> makes of it:
  \<open>None\<close> when the conversion throws.
\<close>

datatype js_value = JUndefined | JNull | JString string | JObject "string option"

fun to_String :: "js_value \<Rightarrow> string option" where
  "to_String JUndefined = Some ''undefined''"
| "to_String JNull = Some ''null''"
| "to_String (JString s) = Some s"
| "to_String (JObject r) = r"

datatype navigation = SetHref string | Reload

text \<open>
  \<open>href_ok t\<close> says that the assignment \<open>window.location.href = t\<close> does not throw. The
  outer \<open>case\<close> is the \<open>try\<close>: \<open>Inl\<close> is the exception of \<open>String(url)\<close>, \<open>Inr target\<close> the
  value of \<open>target\<close> (\<open>None\<close> for \<open>null\<close>); \<open>if (target)\<close> holds for a string that is not
  empty.
\<close>

definition hardNavigate :: "(string \<Rightarrow> bool) \<Rightarrow> js_value \<Rightarrow> navigation" where
  "hardNavigate href_ok url =
     (case (if url \<noteq> JNull \<and> url \<noteq> JUndefined
            then (case to_String url of None \<Rightarrow> Inl () | Some s \<Rightarrow> Inr (Some s))
            else Inr None) of
        Inl u \<Rightarrow> Reload
      | Inr target \<Rightarrow>
          (case target of
             None \<Rightarrow> Reload
           | Some t \<Rightarrow>
               if t \<noteq> [] then (if href_ok t then SetHref t else Reload)
               else Reload))"

subsection \<open>The window and the saved bindings\<close>

text \<open>
  A function value bound to a property: one that was there before (\<open>Native\<close>, of any
  identity \<open>'f\<close>), the result of \<open>bind\<close>, or one of the closures \<open>disableSpaRouting\<close>
  installs.
\<close>

datatype 'f func =
    Native 'f
  | Bound "'f func"
  | KS_pushState
  | KS_replaceState
  | KS_back
  | KS_forward
  | KS_go
  | KS_addEventListener
  | KS_removeEventListener

text \<open>A listener: one of the application's, or one of the kill switch's two handlers.\<close>

datatype 'l js_listener = AppListener 'l | OnHashAttempt | OnPopState

text \<open>The third argument of a registration: the application's, or the literal \<open>true\<close>.\<close>

datatype 'o js_options = AppOptions 'o | LiteralTrue

record ('l, 'o) registration =
  rtype :: string
  listener :: "'l js_listener"
  options :: "'o js_options"

record 'f history_methods =
  pushState :: "'f func"
  replaceState :: "'f func"
  back' :: "'f func"
  forward :: "'f func"
  go :: "'f func"

record 'f window_methods =
  addEventListener :: "'f func"
  removeEventListener :: "'f func"
  locationAssign :: "'f func"
  locationReplace :: "'f func"

record 'l handlers =
  hashchange :: "'l js_listener"
  popstate :: "'l js_listener"

text \<open>
  The object under \<open>window["__routingKillSwitch__"]\<close>. \<open>disableSpaRouting\<close> assigns every
  field before it returns, so an object that exists has them all.
\<close>

record ('f, 'l, 'o) saved =
  enabled :: bool
  history :: "'f history_methods"
  window :: "'f window_methods"
  listeners :: "('l, 'o) registration list"
  blockedEvents :: "string set"
  killSwitchHandlers :: "'l handlers"

text \<open>A call of an original (saved) registration or removal function on the window.\<close>

datatype ('f, 'l, 'o) orig_call =
    AddCall "'f func" "('l, 'o) registration"
  | RemoveCall "'f func" "('l, 'o) registration"

text \<open>
  The part of the browser the kill switch touches: the current bindings of
  \<open>window.history\<close>, of \<open>window.addEventListener\<close> and \<open>removeEventListener\<close> and of
  \<open>location.assign\<close> and \<open>replace\<close>, the property \<open>window[KEY]\<close>, and the calls made so far
  to original registration and removal functions, in order.
\<close>

record ('f, 'l, 'o) browser =
  hist :: "'f history_methods"
  w_addEventListener :: "'f func"
  w_removeEventListener :: "'f func"
  location_assign :: "'f func"
  location_replace :: "'f func"
  routingKillSwitch :: "('f, 'l, 'o) saved option"
  calls :: "('f, 'l, 'o) orig_call list"

definition guard_enabled :: "('f, 'l, 'o) browser \<Rightarrow> bool" where
  "guard_enabled w = (case routingKillSwitch w of None \<Rightarrow> False | Some s \<Rightarrow> enabled s)"

definition disableSpaRouting :: "('f, 'l, 'o) browser \<Rightarrow> ('f, 'l, 'o) browser" where
  "disableSpaRouting w =
     (if guard_enabled w then w
      else
        (let sv = \<lparr>enabled = True,
                   history = hist w,
                   window = \<lparr>addEventListener = w_addEventListener w,
                             removeEventListener = w_removeEventListener w,
                             locationAssign = Bound (location_assign w),
                             locationReplace = Bound (location_replace w)\<rparr>,
                   listeners = (case routingKillSwitch w of None \<Rightarrow> [] | Some s \<Rightarrow> listeners s),
                   blockedEvents = {''popstate'', ''hashchange''},
                   killSwitchHandlers = \<lparr>hashchange = OnHashAttempt, popstate = OnPopState\<rparr>\<rparr>
         in w\<lparr>hist := \<lparr>pushState = KS_pushState, replaceState = KS_replaceState,
                         back' = KS_back, forward = KS_forward, go = KS_go\<rparr>,
               w_addEventListener := KS_addEventListener,
               w_removeEventListener := KS_removeEventListener,
               routingKillSwitch := Some sv,
               calls := calls w @
                 [AddCall (w_addEventListener w)
                    \<lparr>rtype = ''hashchange'', listener = OnHashAttempt, options = LiteralTrue\<rparr>,
                  AddCall (w_addEventListener w)
                    \<lparr>rtype = ''popstate'', listener = OnPopState, options = LiteralTrue\<rparr>]\<rparr>))"

text \<open>
  The two closures installed on \<open>window\<close>. Their \<open>saved\<close> is the object under
  \<open>window[KEY]\<close>, which exists whenever they do.
\<close>

definition ks_addEventListener ::
  "('f, 'l, 'o) browser \<Rightarrow> ('l, 'o) registration \<Rightarrow> ('f, 'l, 'o) browser" where
  "ks_addEventListener w r =
     (case routingKillSwitch w of
        None \<Rightarrow> w
      | Some sv \<Rightarrow>
          if rtype r \<in> blockedEvents sv
          then w\<lparr>routingKillSwitch := Some (sv\<lparr>listeners := listeners sv @ [r]\<rparr>)\<rparr>
          else w\<lparr>calls := calls w @ [AddCall (addEventListener (window sv)) r]\<rparr>)"

definition ks_removeEventListener ::
  "('f, 'l, 'o) browser \<Rightarrow> ('l, 'o) registration \<Rightarrow> ('f, 'l, 'o) browser" where
  "ks_removeEventListener w r =
     (case routingKillSwitch w of
        None \<Rightarrow> w
      | Some sv \<Rightarrow>
          if rtype r \<in> blockedEvents sv
          then w\<lparr>routingKillSwitch := Some (sv\<lparr>listeners :=
                    filter (\<lambda>x. \<not> (rtype x = rtype r \<and> listener x = listener r)) (listeners sv)\<rparr>)\<rparr>
          else w\<lparr>calls := calls w @ [RemoveCall (removeEventListener (window sv)) r]\<rparr>)"

text \<open>
  \<open>window.addEventListener(type, listener, options)\<close> and
  \<open>window.removeEventListener(...)\<close> as the application calls them: whatever is bound at
  the time runs.
\<close>

definition call_addEventListener ::
  "('f, 'l, 'o) browser \<Rightarrow> ('l, 'o) registration \<Rightarrow> ('f, 'l, 'o) browser" where
  "call_addEventListener w r =
     (if w_addEventListener w = KS_addEventListener then ks_addEventListener w r
      else w\<lparr>calls := calls w @ [AddCall (w_addEventListener w) r]\<rparr>)"

definition call_removeEventListener ::
  "('f, 'l, 'o) browser \<Rightarrow> ('l, 'o) registration \<Rightarrow> ('f, 'l, 'o) browser" where
  "call_removeEventListener w r =
     (if w_removeEventListener w = KS_removeEventListener then ks_removeEventListener w r
      else w\<lparr>calls := calls w @ [RemoveCall (w_removeEventListener w) r]\<rparr>)"

definition restoreSpaRouting :: "('f, 'l, 'o) browser \<Rightarrow> ('f, 'l, 'o) browser" where
  "restoreSpaRouting w =
     (case routingKillSwitch w of
        None \<Rightarrow> w
      | Some sv \<Rightarrow>
          if \<not> enabled sv then w
          else
            w\<lparr>hist := history sv,
              w_addEventListener := addEventListener (window sv),
              w_removeEventListener := removeEventListener (window sv),
              calls := calls w @
                [RemoveCall (removeEventListener (window sv))
                   \<lparr>rtype = ''hashchange'', listener = hashchange (killSwitchHandlers sv),
                    options = LiteralTrue\<rparr>,
                 RemoveCall (removeEventListener (window sv))
                   \<lparr>rtype = ''popstate'', listener = popstate (killSwitchHandlers sv),
                    options = LiteralTrue\<rparr>] @
                map (AddCall (addEventListener (window sv))) (listeners sv),
              routingKillSwitch := Some (sv\<lparr>listeners := [], enabled := False\<rparr>)\<rparr>)"

text \<open>What the page can do while the guard is on, other than switching it off.\<close>

datatype ('l, 'o) guarded_action =
    Enable
  | AddListener "('l, 'o) registration"
  | RemoveListener "('l, 'o) registration"

fun act :: "('f, 'l, 'o) browser \<Rightarrow> ('l, 'o) guarded_action \<Rightarrow> ('f, 'l, 'o) browser" where
  "act w Enable = disableSpaRouting w"
| "act w (AddListener r) = call_addEventListener w r"
| "act w (RemoveListener r) = call_removeEventListener w r"

section \<open>Notions used to state the properties\<close>

subsection \<open>The guard\<close>

text \<open>The registrations the guard holds back: \<open>saved.listeners\<close>, empty while there is no \<open>saved\<close>.\<close>

definition queued :: "('f, 'l, 'o) browser \<Rightarrow> ('l, 'o) registration list" where
  "queued w = (case routingKillSwitch w of None \<Rightarrow> [] | Some s \<Rightarrow> listeners s)"

definition guarded_type :: "string \<Rightarrow> bool" where
  "guarded_type t \<longleftrightarrow> t = ''popstate'' \<or> t = ''hashchange''"

text \<open>
  The specification's account of the queue: a registration of a guarded type is appended,
  a removal of a guarded type deletes the entries with the same type and callback, and
  nothing else touches it.
\<close>

fun queue_step ::
  "('l, 'o) registration list \<Rightarrow> ('l, 'o) guarded_action \<Rightarrow> ('l, 'o) registration list" where
  "queue_step q Enable = q"
| "queue_step q (AddListener r) = (if guarded_type (rtype r) then q @ [r] else q)"
| "queue_step q (RemoveListener r) =
     (if guarded_type (rtype r)
      then filter (\<lambda>x. \<not> (rtype x = rtype r \<and> listener x = listener r)) q
      else q)"

text \<open>
  The specification's account of what reaches the real target while the guard is on:
  only registrations and removals of other types, through the original functions.
\<close>

fun passed_on ::
  "'f func \<Rightarrow> 'f func \<Rightarrow> ('l, 'o) guarded_action \<Rightarrow> ('f, 'l, 'o) orig_call list" where
  "passed_on fa fr Enable = []"
| "passed_on fa fr (AddListener r) = (if guarded_type (rtype r) then [] else [AddCall fa r])"
| "passed_on fa fr (RemoveListener r) = (if guarded_type (rtype r) then [] else [RemoveCall fr r])"

text \<open>The guard is on in \<open>w\<close> and holds the bindings of \<open>w0\<close>.\<close>

definition holds_originals :: "('f, 'l, 'o) browser \<Rightarrow> ('f, 'l, 'o) browser \<Rightarrow> bool" where
  "holds_originals w0 w \<longleftrightarrow>
     (case routingKillSwitch w of
        None \<Rightarrow> False
      | Some sv \<Rightarrow>
          enabled sv \<and> history sv = hist w0 \<and>
          addEventListener (window sv) = w_addEventListener w0 \<and>
          removeEventListener (window sv) = w_removeEventListener w0)"

text \<open>The state \<open>disableSpaRouting\<close> leaves, with \<open>fa\<close> and \<open>fr\<close> the saved originals.\<close>

definition installed :: "'f func \<Rightarrow> 'f func \<Rightarrow> ('f, 'l, 'o) browser \<Rightarrow> bool" where
  "installed fa fr w \<longleftrightarrow>
     w_addEventListener w = KS_addEventListener \<and>
     w_removeEventListener w = KS_removeEventListener \<and>
     (case routingKillSwitch w of
        None \<Rightarrow> False
      | Some sv \<Rightarrow>
          enabled sv \<and> blockedEvents sv = {''popstate'', ''hashchange''} \<and>
          addEventListener (window sv) = fa \<and> removeEventListener (window sv) = fr \<and>
          hashchange (killSwitchHandlers sv) = OnHashAttempt \<and>
          popstate (killSwitchHandlers sv) = OnPopState)"

text \<open>A page before the script ran, and three listeners of the application.\<close>

definition fresh_page :: "(nat, nat, nat) browser" where
  "fresh_page =
     \<lparr>hist = \<lparr>pushState = Native 1, replaceState = Native 2, back' = Native 3,
              forward = Native 4, go = Native 5\<rparr>,
      w_addEventListener = Native 6,
      w_removeEventListener = Native 7,
      location_assign = Native 8,
      location_replace = Native 9,
      routingKillSwitch = None,
      calls = []\<rparr>"

definition router_pop :: "(nat, nat) registration" where
  "router_pop = \<lparr>rtype = ''popstate'', listener = AppListener 1, options = AppOptions 0\<rparr>"

definition router_hash :: "(nat, nat) registration" where
  "router_hash = \<lparr>rtype = ''hashchange'', listener = AppListener 2, options = AppOptions 0\<rparr>"

definition on_click :: "(nat, nat) registration" where
  "on_click = \<lparr>rtype = ''click'', listener = AppListener 3, options = AppOptions 0\<rparr>"

text \<open>A location that accepts every address.\<close>

definition any_href :: "string \<Rightarrow> bool" where
  "any_href t = True"

subsection \<open>A remote store\<close>

text \<open>
  The store of the end-to-end scenario: the database \<open>mydb\<close> lists one file \<open>a.png\<close> under
  \<open>assets\<close> and serves its three bytes; every upload is accepted.
\<close>

definition ok_response :: "'a \<Rightarrow> 'a response" where
  "ok_response v = \<lparr>ok = True, status = 200, statusText = ''OK'', payload = Some v\<rparr>"

definition a_png :: bytes where
  "a_png = [137, 80, 78]"

definition mydb_store :: net where
  "mydb_store =
     \<lparr>get_json = (\<lambda>url. if url = ''/estorage/mydb/assets''
                         then Some (ok_response [DirEntry_file ''a.png'' ''abc'']) else None),
      get_bytes = (\<lambda>url. if url = ''/estorage/mydb/assets/a.png''
                          then Some (ok_response a_png) else None),
      post_zip = (\<lambda>url f. Some (ok_response (True, drop 10 url)))\<rparr>"

definition graph1_zip :: zip_file where
  "graph1_zip = \<lparr>file_name = ''graph1.zip'', file_bytes = [80, 75]\<rparr>"

definition graph2_ZIP :: zip_file where
  "graph2_ZIP = \<lparr>file_name = ''graph2.ZIP'', file_bytes = [80, 75, 3]\<rparr>"

subsection \<open>The mirror\<close>

text \<open>The paths a run asked \<open>stat\<close> about, in order.\<close>

fun stat_paths :: "event list \<Rightarrow> string list" where
  "stat_paths [] = []"
| "stat_paths (EvStat p r # evs) = p # stat_paths evs"
| "stat_paths (e # evs) = stat_paths evs"

text \<open>
  The entry \<open>a\<close> fails in the state \<open>fs\<close>: it is not there as a file, and its fetch is
  rejected or the write of the fetched bytes is.
\<close>

definition asset_fails :: "'fs pfs \<Rightarrow> net \<Rightarrow> string \<Rightarrow> 'fs \<Rightarrow> dir_entry \<Rightarrow> bool" where
  "asset_fails P S db fs a =
     (case is_type P fs (asset_path db (entry_name a)) File_type
             ''Path exists but is not a asset file'' of
        Inr u \<Rightarrow> False
      | Inl e \<Rightarrow>
          (case fetchDBFileBytes S db (''assets/'' @ entry_name a) of
             Inl e' \<Rightarrow> True
           | Inr data \<Rightarrow> isl (writeFile P fs (asset_path db (entry_name a)) data)))"

subsection \<open>Trees of the filesystem\<close>

text \<open>
  The names \<open>mkdir\<close> and \<open>writeFile\<close> can give an entry: a segment of a normalised path.
\<close>

definition plain_name :: "string \<Rightarrow> bool" where
  "plain_name nm \<longleftrightarrow> nm \<noteq> [] \<and> nm \<noteq> ''.'' \<and> nm \<noteq> ''..'' \<and> CHR ''/'' \<notin> set nm"

fun wf_node :: "inode \<Rightarrow> bool"
  and wf_entries :: "(string \<times> inode) list \<Rightarrow> bool" where
  "wf_node (File d) = True"
| "wf_node (Dir es) = wf_entries es"
| "wf_entries [] = True"
| "wf_entries ((k, n) # es) = (plain_name k \<and> map_of es k = None \<and> wf_node n \<and> wf_entries es)"

fun height :: "inode \<Rightarrow> nat"
  and heights :: "(string \<times> inode) list \<Rightarrow> nat" where
  "height (File d) = 0"
| "height (Dir es) = Suc (heights es)"
| "heights [] = 0"
| "heights ((k, n) # es) = max (height n) (heights es)"

text \<open>
  The specification's tree listing: a depth-first pre-order walk of the entries of a
  directory in their stored order, one line per entry, the lines of a subdirectory
  directly after its own line, the last entry of each directory with the closing
  connector.
\<close>

fun render :: "string \<Rightarrow> (string \<times> inode) list \<Rightarrow> string list" where
  "render pfx [] = []"
| "render pfx ((nm, File d) # rest) =
     (pfx @ (if rest = [] then conn_last else conn_mid) @ nm) # render pfx rest"
| "render pfx ((nm, Dir es) # rest) =
     (pfx @ (if rest = [] then conn_last else conn_mid) @ nm) #
     render (pfx @ (if rest = [] then indent_last else indent_mid)) es @ render pfx rest"

text \<open>
  \<open>grows n n'\<close>: \<open>n'\<close> is \<open>n\<close> with entries added. A file keeps its bytes, a directory
  keeps its entries, each of them grown.
\<close>

inductive grows :: "inode \<Rightarrow> inode \<Rightarrow> bool" where
  grows_File: "grows (File d) (File d)"
| grows_Dir:
    "(\<And>k n. map_of es k = Some n \<Longrightarrow> \<exists>n'. map_of es' k = Some n' \<and> grows n n') \<Longrightarrow>
     grows (Dir es) (Dir es')"

text \<open>The fetches a run requested, in order: the database and the path of each.\<close>

fun fetches :: "event list \<Rightarrow> (string \<times> string) list" where
  "fetches [] = []"
| "fetches (EvFetch db p b # evs) = (db, p) # fetches evs"
| "fetches (e # evs) = fetches evs"

text \<open>The paths a run tried to write, in order.\<close>

fun write_paths :: "event list \<Rightarrow> string list" where
  "write_paths [] = []"
| "write_paths (EvWrite p d b # evs) = p # write_paths evs"
| "write_paths (e # evs) = write_paths evs"

text \<open>A run neither fetched the asset \<open>nm\<close> of \<open>db\<close> nor tried to write its local path.\<close>

definition untouched :: "string \<Rightarrow> string \<Rightarrow> event list \<Rightarrow> bool" where
  "untouched db nm ev \<longleftrightarrow>
     (db, ''assets/'' @ nm) \<notin> set (fetches ev) \<and> asset_path db nm \<notin> set (write_paths ev)"

text \<open>The trace and the final filesystem of a run.\<close>

definition trace_of :: "'fs \<times> event list \<times> bool \<Rightarrow> event list" where
  "trace_of run = fst (snd run)"

definition state_of :: "'fs \<times> event list \<times> bool \<Rightarrow> 'fs" where
  "state_of run = fst run"

subsection \<open>Filesystems and stores of the scenarios\<close>

text \<open>The empty filesystem, and three states of the mirror of \<open>mydb\<close>.\<close>

definition fs_empty :: inode where
  "fs_empty = Dir []"

definition fs_mydb_is_file :: inode where
  "fs_mydb_is_file = Dir [(''mydb'', File [])]"

definition fs_assets_dir :: inode where
  "fs_assets_dir = Dir [(''mydb'', Dir [(''assets'', Dir [])])]"

definition fs_mirrored :: inode where
  "fs_mirrored = Dir [(''mydb'', Dir [(''assets'', Dir [(''a.png'', File a_png)])])]"


text \<open>A filesystem with two databases.\<close>

definition fs_two :: inode where
  "fs_two =
     Dir [(''mydb'', Dir [(''assets'', Dir [(''b.png'', File [1]), (''a.png'', File a_png)]),
                          (''db.sqlite'', File [2])]),
          (''other'', Dir [])]"

text \<open>
  A store that lists \<open>a.png\<close> and \<open>b.png\<close>, answers the request for \<open>a.png\<close> with status 500
  and serves \<open>b.png\<close>.
\<close>

definition partial_store :: net where
  "partial_store =
     \<lparr>get_json = (\<lambda>url. if url = ''/estorage/mydb/assets''
                         then Some (ok_response [DirEntry_file ''a.png'' ''abc'',
                                                 DirEntry_file ''b.png'' ''def''])
                         else None),
      get_bytes = (\<lambda>url. if url = ''/estorage/mydb/assets/b.png''
                          then Some (ok_response [66])
                          else Some \<lparr>ok = False, status = 500,
                                     statusText = ''Internal Server Error'', payload = None\<rparr>),
      post_zip = (\<lambda>url f. None)\<rparr>"

text \<open>
  The lines of one directory level, for any filesystem: for each name that \<open>readdir\<close>
  returned, in that order, its line and directly after it, when \<open>stat\<close> reports a
  directory, what \<open>printTree\<close> logs for that subdirectory.
\<close>

fun level_lines :: "nat \<Rightarrow> 'fs pfs \<Rightarrow> 'fs \<Rightarrow> string \<Rightarrow> string \<Rightarrow> string list \<Rightarrow> string list" where
  "level_lines n P fs dir pfx [] = []"
| "level_lines n P fs dir pfx (nm # rest) =
     (pfx @ (if rest = [] then conn_last else conn_mid) @ nm) #
     (if stat P fs (child_path dir nm) = Inr Dir_type
      then fst (printTree n P fs (child_path dir nm)
                  (pfx @ (if rest = [] then indent_last else indent_mid)))
      else []) @
     level_lines n P fs dir pfx rest"

section \<open>Properties of hardNavigate\<close>

text \<open>
  C10. \<open>hardNavigate\<close> with the empty string reloads and does not set the location: the
  test \<open>if (target)\<close> is on the truthiness of the string, so an empty target goes the way
  of an absent one. This holds whatever the location accepts.
\<close>

theorem hardNavigate_empty_string_reloads:
  "hardNavigate href_ok (JString '''') = Reload"
  by (simp add: hardNavigate_def)

text \<open>
  C7, as stated, fails: the empty string is a target that is present, its coercion and the
  navigation do not throw, and still the location is not set.
\<close>

theorem hardNavigate_present_target_not_set:
  "JString '''' \<noteq> JUndefined \<and> JString '''' \<noteq> JNull \<and>
   to_String (JString '''') = Some '''' \<and> any_href '''' \<and>
   hardNavigate any_href (JString '''') \<noteq> SetHref ''''"
  by (simp add: hardNavigate_def any_href_def)

text \<open>
  C7, amended. For every invocation of \<open>hardNavigate\<close>: without a target (\<open>undefined\<close> or
  \<open>null\<close>) it reloads; when the coercion to a string throws it reloads; and with a target
  coerced to \<open>t\<close> it sets the location to \<open>t\<close> when \<open>t\<close> is not empty and the assignment
  does not throw, and reloads otherwise.
\<close>

theorem hardNavigate_contract:
  "((url = JUndefined \<or> url = JNull) \<longrightarrow> hardNavigate href_ok url = Reload) \<and>
   (to_String url = None \<longrightarrow> hardNavigate href_ok url = Reload) \<and>
   (\<forall>t. url \<noteq> JUndefined \<and> url \<noteq> JNull \<and> to_String url = Some t \<longrightarrow>
        hardNavigate href_ok url = (if t \<noteq> [] \<and> href_ok t then SetHref t else Reload))"
  by (cases url) (auto simp: hardNavigate_def)

theorem hardNavigate_contract_witness:
  "to_String (JString ''https://host/page'') = Some ''https://host/page'' \<and>
   hardNavigate any_href (JString ''https://host/page'') = SetHref ''https://host/page'' \<and>
   hardNavigate any_href JUndefined = Reload \<and>
   to_String (JObject None) = None \<and>
   hardNavigate any_href (JObject None) = Reload"
  using hardNavigate_contract [where url = "JString ''https://host/page''" and href_ok = any_href]
    hardNavigate_contract [where url = JUndefined and href_ok = any_href]
    hardNavigate_contract [where url = "JObject None" and href_ok = any_href]
  by (simp add: any_href_def)

section \<open>Properties of uploadRepos\<close>

lemma not_matches_zip_end_long: "4 < length s \<Longrightarrow> \<not> matches_zip_end s"
  by (auto simp: matches_zip_end_def split: list.splits)

lemma matches_zip_end_length: "matches_zip_end s \<Longrightarrow> length s = 4"
  by (auto simp: matches_zip_end_def split: list.splits)

lemma replace_zip_suffix: "matches_zip_end ext \<Longrightarrow> replace_zip (base @ ext) = base"
proof (induction base)
  case Nil
  then show ?case by (cases ext) auto
next
  case (Cons c base)
  have "\<not> matches_zip_end (c # base @ ext)"
    using matches_zip_end_length [OF Cons.prems] not_matches_zip_end_long [of "c # base @ ext"]
    by simp
  with Cons show ?case by simp
qed

lemma replace_zip_other:
  "(\<forall>base ext. nm = base @ ext \<longrightarrow> \<not> matches_zip_end ext) \<Longrightarrow> replace_zip nm = nm"
proof (induction nm)
  case Nil
  then show ?case by simp
next
  case (Cons c nm)
  have here: "\<not> matches_zip_end (c # nm)"
    using Cons.prems [rule_format, of "[]" "c # nm"] by simp
  have "\<forall>base ext. nm = base @ ext \<longrightarrow> \<not> matches_zip_end ext"
    using Cons.prems by (metis append_Cons)
  with Cons.IH here show ?case by simp
qed

lemma uploadRepos_calls:
  "fst (uploadRepos S files) =
     map (\<lambda>f. (replace_zip (file_name f), f))
       (take (Suc (length (takeWhile
          (\<lambda>f. \<not> isl (uploadDBZip S (replace_zip (file_name f)) f)) files))) files)"
  by (induction files) (auto simp: Let_def split: sum.splits prod.splits)

lemma uploadRepos_all:
  "snd (uploadRepos S files) = Inr () \<Longrightarrow>
   fst (uploadRepos S files) = map (\<lambda>f. (replace_zip (file_name f), f)) files"
  by (induction files) (auto simp: Let_def split: sum.splits prod.splits)

text \<open>
  C8. The database name of an upload is the file's name with one trailing \<open>.zip\<close>, in any
  mix of cases, removed: \<open>graph1.zip\<close> uploads as \<open>graph1\<close> and \<open>graph2.ZIP\<close> as \<open>graph2\<close>,
  a name \<open>base.zip\<close> gives \<open>base\<close> whatever \<open>base\<close> is (so only the last of two extensions
  goes), and a name without the extension is kept. The uploads are requested one after
  the other in the order of the input: the requests made are those of the files up to
  and including the first one whose upload is rejected, and of all files when the call
  succeeds.
\<close>

theorem uploadRepos_naming_and_order:
  "replace_zip ''graph1.zip'' = ''graph1'' \<and>
   replace_zip ''graph2.ZIP'' = ''graph2'' \<and>
   (c1 \<in> {CHR ''z'', CHR ''Z''} \<and> c2 \<in> {CHR ''i'', CHR ''I''} \<and> c3 \<in> {CHR ''p'', CHR ''P''} \<longrightarrow>
      replace_zip (base @ [CHR ''.'', c1, c2, c3]) = base) \<and>
   ((\<forall>b d1 d2 d3. nm = b @ [CHR ''.'', d1, d2, d3] \<longrightarrow>
        \<not> (d1 \<in> {CHR ''z'', CHR ''Z''} \<and> d2 \<in> {CHR ''i'', CHR ''I''} \<and> d3 \<in> {CHR ''p'', CHR ''P''})) \<longrightarrow>
      replace_zip nm = nm) \<and>
   fst (uploadRepos S files) =
     map (\<lambda>f. (replace_zip (file_name f), f))
       (take (Suc (length (takeWhile
          (\<lambda>f. \<not> isl (uploadDBZip S (replace_zip (file_name f)) f)) files))) files) \<and>
   (snd (uploadRepos S files) = Inr () \<longrightarrow>
      fst (uploadRepos S files) = map (\<lambda>f. (replace_zip (file_name f), f)) files)"
proof (intro conjI impI)
  show "replace_zip ''graph1.zip'' = ''graph1''" by (simp add: matches_zip_end_def)
  show "replace_zip ''graph2.ZIP'' = ''graph2''" by (simp add: matches_zip_end_def)
next
  assume "c1 \<in> {CHR ''z'', CHR ''Z''} \<and> c2 \<in> {CHR ''i'', CHR ''I''} \<and> c3 \<in> {CHR ''p'', CHR ''P''}"
  then have "matches_zip_end [CHR ''.'', c1, c2, c3]" by (auto simp: matches_zip_end_def)
  then show "replace_zip (base @ [CHR ''.'', c1, c2, c3]) = base" by (rule replace_zip_suffix)
next
  assume no: "\<forall>b d1 d2 d3. nm = b @ [CHR ''.'', d1, d2, d3] \<longrightarrow>
        \<not> (d1 \<in> {CHR ''z'', CHR ''Z''} \<and> d2 \<in> {CHR ''i'', CHR ''I''} \<and> d3 \<in> {CHR ''p'', CHR ''P''})"
  have "\<forall>b ext. nm = b @ ext \<longrightarrow> \<not> matches_zip_end ext"
  proof (intro allI impI notI)
    fix b ext
    assume eq: "nm = b @ ext" and m: "matches_zip_end ext"
    from m obtain d1 d2 d3 where
      "ext = [CHR ''.'', d1, d2, d3]"
      "d1 \<in> {CHR ''z'', CHR ''Z''} \<and> d2 \<in> {CHR ''i'', CHR ''I''} \<and> d3 \<in> {CHR ''p'', CHR ''P''}"
      by (auto simp: matches_zip_end_def split: list.splits)
    with no eq show False by blast
  qed
  then show "replace_zip nm = nm" by (rule replace_zip_other)
next
  show "fst (uploadRepos S files) =
     map (\<lambda>f. (replace_zip (file_name f), f))
       (take (Suc (length (takeWhile
          (\<lambda>f. \<not> isl (uploadDBZip S (replace_zip (file_name f)) f)) files))) files)"
    by (rule uploadRepos_calls)
next
  assume "snd (uploadRepos S files) = Inr ()"
  then show "fst (uploadRepos S files) = map (\<lambda>f. (replace_zip (file_name f), f)) files"
    by (rule uploadRepos_all)
qed

theorem uploadRepos_naming_and_order_witness:
  "replace_zip ''a.zip.zIP'' = ''a.zip'' \<and>
   replace_zip ''notes.txt'' = ''notes.txt'' \<and>
   snd (uploadRepos mydb_store [graph1_zip, graph2_ZIP]) = Inr () \<and>
   fst (uploadRepos mydb_store [graph1_zip, graph2_ZIP]) =
     [(''graph1'', graph1_zip), (''graph2'', graph2_ZIP)]"
  using uploadRepos_naming_and_order [where ?c1.0 = "CHR ''z''" and ?c2.0 = "CHR ''I''"
      and ?c3.0 = "CHR ''P''" and base = "''a.zip''" and nm = "''notes.txt''"
      and S = mydb_store and files = "[graph1_zip, graph2_ZIP]"]
  by (simp add: matches_zip_end_def uploadDBZip_def read_response_def ensureOk_def
      mydb_store_def ok_response_def graph1_zip_def graph2_ZIP_def)

section \<open>Properties of the routing kill switch\<close>

lemma enable_noop: "guard_enabled w \<Longrightarrow> disableSpaRouting w = w"
  by (simp add: disableSpaRouting_def)

lemma restore_noop: "\<not> guard_enabled w \<Longrightarrow> restoreSpaRouting w = w"
  by (auto simp: restoreSpaRouting_def guard_enabled_def split: option.splits)

lemma enable_holds: "\<not> guard_enabled w \<Longrightarrow> holds_originals w (disableSpaRouting w)"
  by (simp add: disableSpaRouting_def holds_originals_def Let_def)

lemma holds_enabled: "holds_originals w0 w \<Longrightarrow> guard_enabled w"
  by (auto simp: holds_originals_def guard_enabled_def split: option.splits)

lemma act_holds: "holds_originals w0 w \<Longrightarrow> holds_originals w0 (act w a)"
proof (cases a)
  case Enable
  assume "holds_originals w0 w"
  then show ?thesis using Enable by (simp add: enable_noop holds_enabled)
next
  case (AddListener r)
  assume "holds_originals w0 w"
  then show ?thesis using AddListener
    by (auto simp: holds_originals_def call_addEventListener_def ks_addEventListener_def
        split: option.splits)
next
  case (RemoveListener r)
  assume "holds_originals w0 w"
  then show ?thesis using RemoveListener
    by (auto simp: holds_originals_def call_removeEventListener_def ks_removeEventListener_def
        split: option.splits)
qed

lemma acts_hold: "holds_originals w0 w \<Longrightarrow> holds_originals w0 (foldl act w acts)"
  by (induction acts arbitrary: w) (simp_all add: act_holds)

lemma restore_originals:
  "holds_originals w0 w \<Longrightarrow>
     hist (restoreSpaRouting w) = hist w0 \<and>
     w_addEventListener (restoreSpaRouting w) = w_addEventListener w0 \<and>
     w_removeEventListener (restoreSpaRouting w) = w_removeEventListener w0 \<and>
     \<not> guard_enabled (restoreSpaRouting w)"
  by (auto simp: holds_originals_def restoreSpaRouting_def guard_enabled_def split: option.splits)

text \<open>
  C5. \<open>disableSpaRouting\<close> on a guard that is on changes nothing, and \<open>restoreSpaRouting\<close>
  on a guard that is off changes nothing. From a state with the guard off, after
  \<open>disableSpaRouting\<close> and then any sequence of further \<open>disableSpaRouting\<close> calls and of
  listener registrations and removals, the one \<open>saved\<close> object under the window's key
  still holds the bindings that were in place before the first call, and
  \<open>restoreSpaRouting\<close> puts exactly those back on \<open>history\<close>, \<open>addEventListener\<close> and
  \<open>removeEventListener\<close> and leaves the guard off.
\<close>

theorem guard_idempotent_and_restores:
  "(guard_enabled w \<longrightarrow> disableSpaRouting w = w) \<and>
   (\<not> guard_enabled w \<longrightarrow> restoreSpaRouting w = w) \<and>
   (\<not> guard_enabled w \<longrightarrow>
      (\<exists>sv. routingKillSwitch (foldl act (disableSpaRouting w) acts) = Some sv \<and> enabled sv \<and>
            history sv = hist w \<and>
            addEventListener (window sv) = w_addEventListener w \<and>
            removeEventListener (window sv) = w_removeEventListener w) \<and>
      hist (restoreSpaRouting (foldl act (disableSpaRouting w) acts)) = hist w \<and>
      w_addEventListener (restoreSpaRouting (foldl act (disableSpaRouting w) acts)) =
        w_addEventListener w \<and>
      w_removeEventListener (restoreSpaRouting (foldl act (disableSpaRouting w) acts)) =
        w_removeEventListener w \<and>
      \<not> guard_enabled (restoreSpaRouting (foldl act (disableSpaRouting w) acts)))"
proof (intro conjI impI)
  assume "guard_enabled w"
  then show "disableSpaRouting w = w" by (rule enable_noop)
next
  assume "\<not> guard_enabled w"
  then show "restoreSpaRouting w = w" by (rule restore_noop)
next
  assume off: "\<not> guard_enabled w"
  let ?w = "foldl act (disableSpaRouting w) acts"
  have h: "holds_originals w ?w"
    using off by (simp add: enable_holds acts_hold)
  then show "\<exists>sv. routingKillSwitch ?w = Some sv \<and> enabled sv \<and>
            history sv = hist w \<and>
            addEventListener (window sv) = w_addEventListener w \<and>
            removeEventListener (window sv) = w_removeEventListener w"
    by (auto simp: holds_originals_def split: option.splits)
  from restore_originals [OF h]
  show "hist (restoreSpaRouting ?w) = hist w"
    and "w_addEventListener (restoreSpaRouting ?w) = w_addEventListener w"
    and "w_removeEventListener (restoreSpaRouting ?w) = w_removeEventListener w"
    and "\<not> guard_enabled (restoreSpaRouting ?w)"
    by simp_all
qed

theorem guard_idempotent_and_restores_witness:
  "\<not> guard_enabled fresh_page \<and>
   guard_enabled (disableSpaRouting fresh_page) \<and>
   disableSpaRouting (disableSpaRouting fresh_page) = disableSpaRouting fresh_page \<and>
   restoreSpaRouting fresh_page = fresh_page \<and>
   pushState (hist (disableSpaRouting fresh_page)) = KS_pushState \<and>
   hist (restoreSpaRouting (foldl act (disableSpaRouting fresh_page)
          [AddListener router_pop, Enable, RemoveListener router_hash, AddListener on_click])) =
     hist fresh_page \<and>
   w_addEventListener (restoreSpaRouting (foldl act (disableSpaRouting fresh_page)
          [AddListener router_pop, Enable, RemoveListener router_hash, AddListener on_click])) =
     Native 6 \<and>
   w_removeEventListener (restoreSpaRouting (foldl act (disableSpaRouting fresh_page)
          [AddListener router_pop, Enable, RemoveListener router_hash, AddListener on_click])) =
     Native 7"
  using guard_idempotent_and_restores [where w = fresh_page
      and acts = "[AddListener router_pop, Enable, RemoveListener router_hash, AddListener on_click]"]
    guard_idempotent_and_restores [where w = "disableSpaRouting fresh_page" and acts = "[]"]
  by (simp add: guard_enabled_def disableSpaRouting_def fresh_page_def)

lemma enable_installed:
  "\<not> guard_enabled w \<Longrightarrow>
   installed (w_addEventListener w) (w_removeEventListener w) (disableSpaRouting w)"
  by (simp add: disableSpaRouting_def installed_def Let_def)

lemma enable_effect:
  "\<not> guard_enabled w \<Longrightarrow>
   queued (disableSpaRouting w) = queued w \<and>
   calls (disableSpaRouting w) = calls w @
     [AddCall (w_addEventListener w)
        \<lparr>rtype = ''hashchange'', listener = OnHashAttempt, options = LiteralTrue\<rparr>,
      AddCall (w_addEventListener w)
        \<lparr>rtype = ''popstate'', listener = OnPopState, options = LiteralTrue\<rparr>]"
  by (simp add: disableSpaRouting_def queued_def Let_def)

lemma act_installed:
  "installed fa fr w \<Longrightarrow>
   installed fa fr (act w a) \<and> queued (act w a) = queue_step (queued w) a \<and>
   calls (act w a) = calls w @ passed_on fa fr a"
proof (cases a)
  case Enable
  assume i: "installed fa fr w"
  then have "guard_enabled w"
    by (auto simp: installed_def guard_enabled_def split: option.splits)
  then show ?thesis using Enable i by (simp add: disableSpaRouting_def)
next
  case (AddListener r)
  assume "installed fa fr w"
  then show ?thesis using AddListener
    by (auto simp: installed_def call_addEventListener_def ks_addEventListener_def queued_def
        guarded_type_def split: option.splits)
next
  case (RemoveListener r)
  assume "installed fa fr w"
  then show ?thesis using RemoveListener
    by (auto simp: installed_def call_removeEventListener_def ks_removeEventListener_def
        queued_def guarded_type_def split: option.splits)
qed

lemma acts_installed:
  "installed fa fr w \<Longrightarrow>
   installed fa fr (foldl act w acts) \<and>
   queued (foldl act w acts) = foldl queue_step (queued w) acts \<and>
   calls (foldl act w acts) = calls w @ concat (map (passed_on fa fr) acts)"
proof (induction acts arbitrary: w)
  case Nil
  then show ?case by simp
next
  case (Cons a acts)
  from act_installed [OF Cons.prems, of a] Cons.IH [of "act w a"]
  show ?case by simp
qed

lemma restore_installed:
  "installed fa fr w \<Longrightarrow>
   calls (restoreSpaRouting w) = calls w @
     [RemoveCall fr \<lparr>rtype = ''hashchange'', listener = OnHashAttempt, options = LiteralTrue\<rparr>,
      RemoveCall fr \<lparr>rtype = ''popstate'', listener = OnPopState, options = LiteralTrue\<rparr>] @
     map (AddCall fa) (queued w) \<and>
   queued (restoreSpaRouting w) = [] \<and>
   w_addEventListener (restoreSpaRouting w) = fa \<and>
   \<not> guard_enabled (restoreSpaRouting w)"
  by (auto simp: installed_def restoreSpaRouting_def queued_def guard_enabled_def
      split: option.splits)

lemma queue_adds:
  "\<forall>r\<in>set regs. guarded_type (rtype r) \<Longrightarrow>
   foldl queue_step q (map AddListener regs) = q @ regs"
  by (induction regs arbitrary: q) auto

lemma passed_adds:
  "\<forall>r\<in>set regs. guarded_type (rtype r) \<Longrightarrow>
   concat (map (passed_on fa fr) (map AddListener regs)) = []"
  by (induction regs) auto

text \<open>
  C6. From a state with the guard off and nothing queued, switch the guard on and let the
  page register and remove listeners in any order. The queue is then what the
  specification says: each registration of \<open>popstate\<close> or \<open>hashchange\<close> appended in order
  (less those the page removed again), and none of them has reached the real target: the
  only calls of the original functions are those for other event types. In particular
  registrations of guarded types alone leave the queue equal to the list registered and
  make no call at all. \<open>restoreSpaRouting\<close> then removes the guard's two handlers and
  calls the original \<open>addEventListener\<close>, which it has put back on the window, once for
  each queued registration in the order of the queue, and leaves the queue empty.
\<close>

theorem guard_queue_and_replay:
  "\<not> guard_enabled w0 \<and> queued w0 = [] \<longrightarrow>
     queued (foldl act (disableSpaRouting w0) acts) = foldl queue_step [] acts \<and>
     calls (foldl act (disableSpaRouting w0) acts) =
       calls (disableSpaRouting w0) @
       concat (map (passed_on (w_addEventListener w0) (w_removeEventListener w0)) acts) \<and>
     ((\<forall>r\<in>set regs. guarded_type (rtype r)) \<longrightarrow>
        foldl queue_step [] (map AddListener regs) = regs \<and>
        concat (map (passed_on (w_addEventListener w0) (w_removeEventListener w0))
                  (map AddListener regs)) = []) \<and>
     calls (restoreSpaRouting (foldl act (disableSpaRouting w0) acts)) =
       calls (foldl act (disableSpaRouting w0) acts) @
       [RemoveCall (w_removeEventListener w0)
          \<lparr>rtype = ''hashchange'', listener = OnHashAttempt, options = LiteralTrue\<rparr>,
        RemoveCall (w_removeEventListener w0)
          \<lparr>rtype = ''popstate'', listener = OnPopState, options = LiteralTrue\<rparr>] @
       map (AddCall (w_addEventListener w0)) (foldl queue_step [] acts) \<and>
     queued (restoreSpaRouting (foldl act (disableSpaRouting w0) acts)) = [] \<and>
     w_addEventListener (restoreSpaRouting (foldl act (disableSpaRouting w0) acts)) =
       w_addEventListener w0"
proof (intro impI)
  assume pre: "\<not> guard_enabled w0 \<and> queued w0 = []"
  let ?w = "disableSpaRouting w0"
  let ?w1 = "foldl act ?w acts"
  let ?fa = "w_addEventListener w0"
  let ?fr = "w_removeEventListener w0"
  have i: "installed ?fa ?fr ?w"
    using pre by (simp add: enable_installed)
  have q: "queued ?w = []"
    using enable_effect [of w0] pre by simp
  note a = acts_installed [OF i, of acts]
  have i1: "installed ?fa ?fr ?w1"
    using a by simp
  note r = restore_installed [OF i1]
  have 1: "queued ?w1 = foldl queue_step [] acts"
    using a q by simp
  have 2: "calls ?w1 = calls ?w @ concat (map (passed_on ?fa ?fr) acts)"
    using a by simp
  have 3: "(\<forall>r\<in>set regs. guarded_type (rtype r)) \<longrightarrow>
        foldl queue_step [] (map AddListener regs) = regs \<and>
        concat (map (passed_on ?fa ?fr) (map AddListener regs)) = []"
    using queue_adds [of regs "[]"] passed_adds [of regs ?fa ?fr] by simp
  have 4: "calls (restoreSpaRouting ?w1) =
       calls ?w1 @
       [RemoveCall ?fr \<lparr>rtype = ''hashchange'', listener = OnHashAttempt, options = LiteralTrue\<rparr>,
        RemoveCall ?fr \<lparr>rtype = ''popstate'', listener = OnPopState, options = LiteralTrue\<rparr>] @
       map (AddCall ?fa) (foldl queue_step [] acts)"
    using r 1 by simp
  have 5: "queued (restoreSpaRouting ?w1) = []"
    using r by simp
  have 6: "w_addEventListener (restoreSpaRouting ?w1) = ?fa"
    using r by simp
  from 1 2 3 4 5 6 show "queued ?w1 = foldl queue_step [] acts \<and>
     calls ?w1 = calls ?w @ concat (map (passed_on ?fa ?fr) acts) \<and>
     ((\<forall>r\<in>set regs. guarded_type (rtype r)) \<longrightarrow>
        foldl queue_step [] (map AddListener regs) = regs \<and>
        concat (map (passed_on ?fa ?fr) (map AddListener regs)) = []) \<and>
     calls (restoreSpaRouting ?w1) =
       calls ?w1 @
       [RemoveCall ?fr \<lparr>rtype = ''hashchange'', listener = OnHashAttempt, options = LiteralTrue\<rparr>,
        RemoveCall ?fr \<lparr>rtype = ''popstate'', listener = OnPopState, options = LiteralTrue\<rparr>] @
       map (AddCall ?fa) (foldl queue_step [] acts) \<and>
     queued (restoreSpaRouting ?w1) = [] \<and>
     w_addEventListener (restoreSpaRouting ?w1) = ?fa"
    by blast
qed

theorem guard_queue_and_replay_witness:
  "\<not> guard_enabled fresh_page \<and> queued fresh_page = [] \<and>
   guarded_type (rtype router_pop) \<and> guarded_type (rtype router_hash) \<and>
   queued (foldl act (disableSpaRouting fresh_page)
            (map AddListener [router_pop, router_hash])) = [router_pop, router_hash] \<and>
   calls (foldl act (disableSpaRouting fresh_page)
            (map AddListener [router_pop, router_hash])) = calls (disableSpaRouting fresh_page) \<and>
   calls (restoreSpaRouting (foldl act (disableSpaRouting fresh_page)
            (map AddListener [router_pop, router_hash]))) =
     [AddCall (Native 6) \<lparr>rtype = ''hashchange'', listener = OnHashAttempt, options = LiteralTrue\<rparr>,
      AddCall (Native 6) \<lparr>rtype = ''popstate'', listener = OnPopState, options = LiteralTrue\<rparr>,
      RemoveCall (Native 7) \<lparr>rtype = ''hashchange'', listener = OnHashAttempt, options = LiteralTrue\<rparr>,
      RemoveCall (Native 7) \<lparr>rtype = ''popstate'', listener = OnPopState, options = LiteralTrue\<rparr>,
      AddCall (Native 6) router_pop,
      AddCall (Native 6) router_hash] \<and>
   queued (restoreSpaRouting (foldl act (disableSpaRouting fresh_page)
            (map AddListener [router_pop, router_hash]))) = []"
  using guard_queue_and_replay [where ?w0.0 = fresh_page
      and acts = "map AddListener [router_pop, router_hash]"
      and regs = "[router_pop, router_hash]"]
  by (simp add: guard_enabled_def queued_def guarded_type_def fresh_page_def router_pop_def
      router_hash_def disableSpaRouting_def)

section \<open>Properties of the asset loop, for any filesystem\<close>

lemma sync_assets_append:
  "sync_assets P S db fs (xs @ ys) =
     (case sync_assets P S db fs xs of
        (fs1, ev1) \<Rightarrow> (case sync_assets P S db fs1 ys of (fs2, ev2) \<Rightarrow> (fs2, ev1 @ ev2)))"
  by (induction xs arbitrary: fs) (auto split: prod.splits)

lemma stat_paths_append: "stat_paths (xs @ ys) = stat_paths xs @ stat_paths ys"
  by (induction xs rule: stat_paths.induct) auto

lemma sync_asset_stat_paths:
  "stat_paths (snd (sync_asset P S db fs a)) = [asset_path db (entry_name a)]"
  by (auto simp: sync_asset_def Let_def split: sum.splits)

lemma sync_assets_stat_paths:
  "stat_paths (snd (sync_assets P S db fs files)) = map (\<lambda>a. asset_path db (entry_name a)) files"
proof (induction files arbitrary: fs)
  case Nil
  then show ?case by simp
next
  case (Cons a files)
  obtain fs1 ev1 where s1: "sync_asset P S db fs a = (fs1, ev1)" by (cases "sync_asset P S db fs a")
  obtain fs2 ev2 where s2: "sync_assets P S db fs1 files = (fs2, ev2)" by (cases "sync_assets P S db fs1 files")
  have "stat_paths ev1 = [asset_path db (entry_name a)]" using sync_asset_stat_paths [of P S db fs a] s1 by simp
  moreover have "stat_paths ev2 = map (\<lambda>a. asset_path db (entry_name a)) files" using Cons.IH [of fs1] s2 by simp
  ultimately show ?case using s1 s2 by (simp add: stat_paths_append)
qed

lemma asset_fails_step:
  "asset_fails P S db fs a \<Longrightarrow>
   fst (sync_asset P S db fs a) = fs \<and>
   last (snd (sync_asset P S db fs a)) =
     ConsoleError (''Failed to write to lightningfs for '' @ db @ ''/assets/'' @ entry_name a)"
  by (auto simp: asset_fails_def sync_asset_def Let_def split: sum.splits)

section \<open>Properties of the lightning-fs model\<close>

lemma split_on_not_Nil [simp]: "split_on sep s \<noteq> []"
  by (induction s) (auto split: list.splits)

lemma split_on_append_sep:
  "split_on sep (a @ sep # b) = split_on sep a @ split_on sep b"
  by (induction a) (auto split: list.splits)

lemma split_on_plain: "sep \<notin> set s \<Longrightarrow> split_on sep s = [s]"
  by (induction s) (auto split: list.splits)

lemma norm_step_plain: "plain_name nm \<Longrightarrow> norm_step (Some acc) nm = Some (acc @ [nm])"
  by (simp add: plain_name_def)

lemma path_parts_child:
  assumes "path_parts dir = Some cs" and "plain_name nm"
  shows "path_parts (dir @ ''/'' @ nm) = Some (cs @ [nm])"
proof -
  have "split_on (CHR ''/'') (dir @ ''/'' @ nm) = split_on (CHR ''/'') dir @ [nm]"
    using assms(2) by (simp add: split_on_append_sep split_on_plain plain_name_def)
  then show ?thesis using assms by (simp add: path_parts_def norm_step_plain del: norm_step.simps)
qed

lemma path_parts_root_child:
  assumes "plain_name nm"
  shows "path_parts (''/'' @ nm) = Some [nm]"
  using path_parts_child [of "[]" "[]" nm] assms by (simp add: path_parts_def)

lemma path_parts_slash: "path_parts ''/'' = Some []"
  by (simp add: path_parts_def)

lemma path_parts_child_path:
  assumes "path_parts dir = Some cs" and "plain_name nm"
  shows "path_parts (child_path dir nm) = Some (cs @ [nm])"
proof (cases "dir = ''/''")
  case True
  then have "cs = []" using assms(1) by (simp add: path_parts_slash)
  then show ?thesis using True path_parts_root_child [OF assms(2)] by (simp add: child_path_def)
next
  case False
  then show ?thesis using path_parts_child [OF assms] by (simp add: child_path_def)
qed

lemma lookup_append: "lookup n cs = Some m \<Longrightarrow> lookup n (cs @ ds) = lookup m ds"
proof (induction cs arbitrary: n)
  case Nil then show ?case by simp
next
  case (Cons c cs)
  then show ?case by (cases n) (auto split: option.splits)
qed

lemma wf_entries_map_of: "wf_entries es \<Longrightarrow> map_of es k = Some n \<Longrightarrow> plain_name k \<and> wf_node n"
  by (induction es) (auto split: if_splits)

lemma wf_lookup: "wf_node n \<Longrightarrow> lookup n cs = Some m \<Longrightarrow> wf_node m"
proof (induction cs arbitrary: n)
  case Nil then show ?case by simp
next
  case (Cons c cs)
  then show ?case by (cases n) (auto split: option.splits dest: wf_entries_map_of)
qed

lemma heights_map_of: "map_of es k = Some n \<Longrightarrow> height n \<le> heights es"
  by (induction es) (auto split: if_splits)

lemma lfs_stat_child:
  assumes "path_parts dir = Some cs" "lookup fs cs = Some (Dir es)" "map_of es nm = Some n" "plain_name nm"
  shows "lfs_stat fs (child_path dir nm) = Inr (case n of File d \<Rightarrow> File_type | Dir ds \<Rightarrow> Dir_type)"
    and "lookup fs (cs @ [nm]) = Some n"
  using path_parts_child_path [OF assms(1) assms(4)] lookup_append [OF assms(2), of "[nm]"] assms(3)
  by (auto simp: lfs_stat_def split: inode.splits)

lemma lfs_readdir_dir:
  "path_parts dir = Some cs \<Longrightarrow> lookup fs cs = Some (Dir es) \<Longrightarrow> lfs_readdir fs dir = Inr (map fst es)"
  by (simp add: lfs_readdir_def)

lemma printTree_render:
  "wf_node fs \<Longrightarrow> path_parts dir = Some cs \<Longrightarrow> lookup fs cs = Some (Dir es) \<Longrightarrow>
   height (Dir es) \<le> fuel \<Longrightarrow>
   printTree fuel lightningfs fs dir pfx = (render pfx es, Done)"
proof (induction fuel arbitrary: dir cs es pfx)
  case 0
  then show ?case by simp
next
  case (Suc n)
  have wfes: "wf_entries es" using wf_lookup [OF Suc.prems(1) Suc.prems(3)] by simp
  have hes: "heights es \<le> n" using Suc.prems(4) by simp
  have loop: "wf_entries rest \<Longrightarrow> (\<forall>k v. map_of rest k = Some v \<longrightarrow> map_of es k = Some v) \<Longrightarrow>
      printTree_loop n lightningfs fs dir pfx (map fst rest) = (render pfx rest, Done)" for rest
  proof (induction rest)
    case Nil
    then show ?case by simp
  next
    case (Cons e rest)
    obtain nm nd where e: "e = (nm, nd)" by (cases e)
    have m: "map_of es nm = Some nd" using Cons.prems(2) e by simp
    have pn: "plain_name nm" using Cons.prems(1) e by simp
    have nn: "map_of rest nm = None" using Cons.prems(1) e by simp
    have sub: "\<forall>k v. map_of rest k = Some v \<longrightarrow> map_of es k = Some v"
    proof (intro allI impI)
      fix k v assume kv: "map_of rest k = Some v"
      then have "k \<noteq> nm" using nn by auto
      then have "map_of (e # rest) k = Some v" using kv e by simp
      then show "map_of es k = Some v" using Cons.prems(2) by blast
    qed
    have r: "printTree_loop n lightningfs fs dir pfx (map fst rest) = (render pfx rest, Done)"
      using Cons.IH Cons.prems(1) sub e by simp
    note st = lfs_stat_child [OF Suc.prems(2) Suc.prems(3) m pn]
    show ?case
    proof (cases nd)
      case (File d)
      then show ?thesis using st r e by (simp add: lightningfs_def Let_def)
    next
      case (Dir ds)
      have "height nd \<le> n" using heights_map_of [OF m] hes by simp
      then have h: "height (Dir ds) \<le> n" using Dir by simp
      have pc: "path_parts (child_path dir nm) = Some (cs @ [nm])"
        using path_parts_child_path [OF Suc.prems(2) pn] .
      have "printTree n lightningfs fs (child_path dir nm) p' = (render p' ds, Done)" for p'
        using Suc.IH [OF Suc.prems(1) pc _ h] st(2) Dir by simp
      then show ?thesis using st r e Dir by (simp add: lightningfs_def Let_def)
    qed
  qed
  have "printTree_loop n lightningfs fs dir pfx (map fst es) = (render pfx es, Done)"
    using loop [of es] wfes by simp
  then show ?case
    using lfs_readdir_dir [OF Suc.prems(2) Suc.prems(3)] by (simp add: lightningfs_def)
qed

lemma grows_refl: "grows n n"
proof (induction n)
  case (File d) show ?case by (rule grows_File)
next
  case (Dir es)
  show ?case
  proof (rule grows_Dir)
    fix k n assume m: "map_of es k = Some n"
    then have "(k, n) \<in> set es" by (rule map_of_SomeD)
    then have "grows n n" using Dir.IH by fastforce
    with m show "\<exists>n'. map_of es k = Some n' \<and> grows n n'" by blast
  qed
qed

lemma grows_lookup:
  "grows n n' \<Longrightarrow> lookup n p = Some m \<Longrightarrow> \<exists>m'. lookup n' p = Some m' \<and> grows m m'"
proof (induction p arbitrary: n n' m)
  case Nil then show ?case by simp
next
  case (Cons c p)
  from Cons.prems(1) show ?case
  proof (cases rule: grows.cases)
    case (grows_File d)
    then show ?thesis using Cons.prems(2) by simp
  next
    case (grows_Dir es es')
    from Cons.prems(2) grows_Dir obtain x where x: "map_of es c = Some x" "lookup x p = Some m"
      by (auto split: option.splits)
    from grows_Dir(3) [OF x(1)] obtain x' where x': "map_of es' c = Some x'" "grows x x'" by blast
    from Cons.IH [OF x'(2) x(2)] x'(1) grows_Dir show ?thesis by simp
  qed
qed

lemma grows_trans: "grows a b \<Longrightarrow> grows b c \<Longrightarrow> grows a c"
proof (induction a b arbitrary: c rule: grows.induct)
  case (grows_File d)
  then show ?case by simp
next
  case (grows_Dir es es')
  from grows_Dir.prems obtain es'' where c: "c = Dir es''"
    and step: "\<And>k n. map_of es' k = Some n \<Longrightarrow> \<exists>n'. map_of es'' k = Some n' \<and> grows n n'"
    by (auto elim: grows.cases)
  show ?case unfolding c
  proof (rule grows.grows_Dir)
    fix k n assume "map_of es k = Some n"
    from grows_Dir.IH [OF this] obtain n' where n': "map_of es' k = Some n'" "grows n n'"
      "\<And>c. grows n' c \<Longrightarrow> grows n c" by blast
    from step [OF n'(1)] obtain n'' where "map_of es'' k = Some n''" "grows n' n''" by blast
    with n'(3) show "\<exists>n'. map_of es'' k = Some n' \<and> grows n n'" by blast
  qed
qed

lemma modify_lookup:
  "modify cs f r = Inr r' \<Longrightarrow>
   \<exists>es es'. lookup r cs = Some (Dir es) \<and> f es = Inr es' \<and> lookup r' cs = Some (Dir es')"
proof (induction cs arbitrary: r r')
  case Nil
  then show ?case by (cases r) (auto split: sum.splits)
next
  case (Cons c cs)
  then show ?case
    by (cases r) (auto split: sum.splits option.splits simp: AList.update_conv')
qed

lemma modify_grows:
  "modify cs f r = Inr r' \<Longrightarrow>
   (\<And>es es'. lookup r cs = Some (Dir es) \<Longrightarrow> f es = Inr es' \<Longrightarrow> grows (Dir es) (Dir es')) \<Longrightarrow>
   grows r r'"
proof (induction cs arbitrary: r r')
  case Nil
  then show ?case by (cases r) (auto split: sum.splits)
next
  case (Cons c cs)
  from Cons.prems(1) obtain es n n' where r: "r = Dir es" and m: "map_of es c = Some n"
    and md: "modify cs f n = Inr n'" and r': "r' = Dir (AList.update c n' es)"
    by (cases r) (auto split: sum.splits option.splits)
  have g: "grows n n'"
  proof (rule Cons.IH [OF md])
    fix ds ds' assume "lookup n cs = Some (Dir ds)" "f ds = Inr ds'"
    then show "grows (Dir ds) (Dir ds')" using Cons.prems(2) [of ds ds'] r m by simp
  qed
  show ?case unfolding r r'
  proof (rule grows_Dir)
    fix k x assume "map_of es k = Some x"
    then show "\<exists>n'a. map_of (AList.update c n' es) k = Some n'a \<and> grows x n'a"
      using g m grows_refl by (cases "k = c") (auto simp: AList.update_conv')
  qed
qed


lemma write_entry_grows:
  "write_entry b data es = Inr es' \<Longrightarrow> (\<forall>d. map_of es b \<noteq> Some (File d)) \<Longrightarrow>
   grows (Dir es) (Dir es')"
  by (auto simp: write_entry_def AList.update_conv' split: option.splits inode.splits
      intro!: grows_Dir grows_refl)


lemma lookup_snoc:
  "cs \<noteq> [] \<Longrightarrow> lookup fs (butlast cs) = Some (Dir es) \<Longrightarrow> lookup fs cs = map_of es (last cs)"
  using lookup_append [of fs "butlast cs" "Dir es" "[last cs]"]
  by (auto split: option.splits)

lemma lfs_writeFile_grows:
  assumes "lfs_writeFile fs p data = Inr fs'" and "lfs_stat fs p \<noteq> Inr File_type"
  shows "grows fs fs'"
proof -
  from assms(1) obtain cs where cs: "path_parts p = Some cs" "cs \<noteq> []"
    and md: "modify (butlast cs) (write_entry (last cs) data) fs = Inr fs'"
    by (auto simp: lfs_writeFile_def split: option.splits if_splits)
  show ?thesis
  proof (rule modify_grows [OF md])
    fix es es' assume l: "lookup fs (butlast cs) = Some (Dir es)"
      and w: "write_entry (last cs) data es = Inr es'"
    have "\<forall>d. map_of es (last cs) \<noteq> Some (File d)"
      using assms(2) cs lookup_snoc [OF cs(2) l] by (auto simp: lfs_stat_def)
    with w show "grows (Dir es) (Dir es')" by (rule write_entry_grows)
  qed
qed

lemma lfs_mkdir_makes_dir: "lfs_mkdir fs p = Inr fs' \<Longrightarrow> lfs_stat fs' p = Inr Dir_type"
proof -
  assume a: "lfs_mkdir fs p = Inr fs'"
  then obtain cs where cs: "path_parts p = Some cs" "cs \<noteq> []"
    and md: "modify (butlast cs) (mkdir_entry (last cs)) fs = Inr fs'"
    by (auto simp: lfs_mkdir_def split: option.splits if_splits)
  from modify_lookup [OF md] obtain es es' where
    e: "mkdir_entry (last cs) es = Inr es'" "lookup fs' (butlast cs) = Some (Dir es')" by blast
  have "map_of es' (last cs) = Some (Dir [])" using e(1)
    by (auto simp: mkdir_entry_def map_add_def split: if_splits)
  then show ?thesis using lookup_snoc [OF cs(2) e(2)] cs(1) by (simp add: lfs_stat_def)
qed


lemma grows_kind:
  "grows n n' \<Longrightarrow> (case n of File d \<Rightarrow> n' = File d | Dir es \<Rightarrow> (\<exists>es'. n' = Dir es'))"
  by (auto elim: grows.cases)

lemma grows_stat: "grows fs fs' \<Longrightarrow> lfs_stat fs p = Inr t \<Longrightarrow> lfs_stat fs' p = Inr t"
proof -
  assume g: "grows fs fs'" and s: "lfs_stat fs p = Inr t"
  from s obtain cs n where cs: "path_parts p = Some cs" "lookup fs cs = Some n"
    by (auto simp: lfs_stat_def split: option.splits)
  from grows_lookup [OF g cs(2)] obtain n' where n': "lookup fs' cs = Some n'" "grows n n'" by blast
  from grows_kind [OF n'(2)] s cs n'(1) show ?thesis
    by (auto simp: lfs_stat_def split: inode.splits)
qed


section \<open>Properties of the mirror on lightning-fs\<close>


lemma is_type_Inl:
  "is_type lightningfs fs p t msg = Inl e \<Longrightarrow> lfs_stat fs p \<noteq> Inr t"
  by (auto simp: is_type_def lightningfs_def split: sum.splits if_splits)

lemma is_type_Inr:
  "is_type lightningfs fs p t msg = Inr u \<longleftrightarrow> lfs_stat fs p = Inr t"
  by (auto simp: is_type_def lightningfs_def split: sum.splits if_splits)

lemma writeFile_lightningfs: "writeFile lightningfs = lfs_writeFile"
  by (simp add: lightningfs_def)

lemma sync_asset_grows: "sync_asset lightningfs S db fs a = (fs', ev) \<Longrightarrow> grows fs fs'"
proof -
  assume a: "sync_asset lightningfs S db fs a = (fs', ev)"
  let ?p = "asset_path db (entry_name a)"
  show ?thesis
  proof (cases "is_type lightningfs fs ?p File_type ''Path exists but is not a asset file''")
    case (Inr u)
    then show ?thesis using a by (simp add: sync_asset_def Let_def grows_refl)
  next
    case (Inl e)
    note ns = is_type_Inl [OF Inl]
    show ?thesis
    proof (cases "fetchDBFileBytes S db (''assets/'' @ entry_name a)")
      case (Inl e')
      then show ?thesis using a \<open>is_type lightningfs fs ?p File_type _ = Inl e\<close>
        by (simp add: sync_asset_def Let_def grows_refl)
    next
      case (Inr data)
      show ?thesis
      proof (cases "lfs_writeFile fs ?p data")
        case (Inl e2)
        then show ?thesis using a Inr \<open>is_type lightningfs fs ?p File_type _ = Inl e\<close>
          by (simp add: sync_asset_def Let_def grows_refl writeFile_lightningfs)
      next
        case w: (Inr fs2)
        then have "fs' = fs2" using a Inr \<open>is_type lightningfs fs ?p File_type _ = Inl e\<close>
          by (simp add: sync_asset_def Let_def writeFile_lightningfs)
        then show ?thesis using lfs_writeFile_grows [OF w ns] by simp
      qed
    qed
  qed
qed

lemma sync_assets_grows: "sync_assets lightningfs S db fs files = (fs', ev) \<Longrightarrow> grows fs fs'"
proof (induction files arbitrary: fs ev)
  case Nil
  then show ?case by (simp add: grows_refl)
next
  case (Cons a files)
  then show ?case
    by (auto split: prod.splits dest!: sync_asset_grows intro: grows_trans)
qed

lemma sync_db_Inl:
  "listDBDir S db ''assets'' = Inl e \<Longrightarrow>
   sync_db fuel P S fs db = (fs, EvList db ''assets'' False # outer_catch db (ClientError e), True)"
  by (simp add: sync_db_def)

lemma sync_db_Inr:
  "listDBDir S db ''assets'' = Inr files \<Longrightarrow> ensure_dir P fs db = (fs1, ev1) \<Longrightarrow>
   sync_assets P S db fs1 files = (fs2, ev2) \<Longrightarrow> printTree fuel P fs2 ''/'' [] = (out, r) \<Longrightarrow>
   sync_db fuel P S fs db =
     (fs2, EvList db ''assets'' True # ev1 @ ev2 @ map ConsoleLog out @
           (case r of Threw e \<Rightarrow> outer_catch db (FsError e) | _ \<Rightarrow> []), r \<noteq> Diverged)"
  by (simp add: sync_db_def)

lemma sync_db_cases:
  obtains (rejected) e where "listDBDir S db ''assets'' = Inl e"
      "sync_db fuel P S fs db = (fs, EvList db ''assets'' False # outer_catch db (ClientError e), True)"
  | (listed) files fs1 ev1 fs2 ev2 out r where "listDBDir S db ''assets'' = Inr files"
      "ensure_dir P fs db = (fs1, ev1)" "sync_assets P S db fs1 files = (fs2, ev2)"
      "printTree fuel P fs2 ''/'' [] = (out, r)"
      "sync_db fuel P S fs db =
        (fs2, EvList db ''assets'' True # ev1 @ ev2 @ map ConsoleLog out @
           (case r of Threw e \<Rightarrow> outer_catch db (FsError e) | _ \<Rightarrow> []), r \<noteq> Diverged)"
proof (cases "listDBDir S db ''assets''")
  case (Inl e)
  show ?thesis by (rule rejected [OF Inl sync_db_Inl [OF Inl]])
next
  case (Inr files)
  obtain fs1 ev1 where e: "ensure_dir P fs db = (fs1, ev1)" by (cases "ensure_dir P fs db")
  obtain fs2 ev2 where s: "sync_assets P S db fs1 files = (fs2, ev2)"
    by (cases "sync_assets P S db fs1 files")
  obtain out r where p: "printTree fuel P fs2 ''/'' [] = (out, r)"
    by (cases "printTree fuel P fs2 ''/'' []")
  from listed [OF Inr e s p sync_db_Inr [OF Inr e s p]] show ?thesis .
qed




lemma write_paths_append: "write_paths (xs @ ys) = write_paths xs @ write_paths ys"
  by (induction xs rule: write_paths.induct) auto


lemma write_paths_logs: "write_paths (map ConsoleLog out) = []"
  by (induction out) auto


lemma untouched_Nil: "untouched db nm []"
  by (simp add: untouched_def)





























section \<open>Well-formed trees, and the mirror returns\<close>

text \<open>
  \<open>mkdir\<close> and \<open>writeFile\<close> keep a tree well formed, so every filesystem reached from a
  well-formed one (the empty one, say) is well formed; and on such a filesystem
  \<open>downloadAssets\<close> returns, given enough fuel for \<open>printTree\<close>.
\<close>

lemma split_on_no_sep: "s \<in> set (split_on sep p) \<Longrightarrow> sep \<notin> set s"
proof (induction p arbitrary: s)
  case Nil
  then show ?case by simp
next
  case (Cons c p)
  then show ?case by (auto split: if_splits list.splits)
qed

lemma foldl_norm_step_None: "foldl norm_step None segs = None"
  by (induction segs) auto

lemma norm_step_plain_all:
  "foldl norm_step (Some acc) segs = Some cs \<Longrightarrow> \<forall>c\<in>set acc. plain_name c \<Longrightarrow>
   \<forall>s\<in>set segs. CHR ''/'' \<notin> set s \<Longrightarrow> \<forall>c\<in>set cs. plain_name c"
proof (induction segs arbitrary: acc)
  case Nil
  then show ?case by simp
next
  case (Cons seg segs)
  show ?case
  proof (cases "norm_step (Some acc) seg")
    case None
    then show ?thesis using Cons.prems(1) by (simp add: foldl_norm_step_None del: norm_step.simps)
  next
    case (Some acc')
    have "\<forall>c\<in>set acc'. plain_name c"
      using Some Cons.prems(2,3)
      by (auto simp: plain_name_def split: if_splits dest: in_set_butlastD)
    then show ?thesis using Cons.IH [of acc'] Cons.prems(1,3) Some by (simp del: norm_step.simps)
  qed
qed

lemma path_parts_plain: "path_parts p = Some cs \<Longrightarrow> \<forall>c\<in>set cs. plain_name c"
  unfolding path_parts_def
  by (rule norm_step_plain_all [of "[]" "split_on (CHR ''/'') p"]) (auto dest: split_on_no_sep)

lemma wf_entries_snoc:
  "wf_entries es \<Longrightarrow> map_of es b = None \<Longrightarrow> plain_name b \<Longrightarrow> wf_node n \<Longrightarrow>
   wf_entries (es @ [(b, n)])"
  by (induction es) (auto simp: map_add_def split: if_splits option.splits)

lemma wf_entries_update:
  "wf_entries es \<Longrightarrow> plain_name b \<Longrightarrow> wf_node n \<Longrightarrow> wf_entries (AList.update b n es)"
  by (induction es) (auto simp: AList.update_conv')

lemma modify_wf:
  "modify cs f r = Inr r' \<Longrightarrow> wf_node r \<Longrightarrow>
   (\<And>es es'. wf_entries es \<Longrightarrow> f es = Inr es' \<Longrightarrow> wf_entries es') \<Longrightarrow> wf_node r'"
proof (induction cs arbitrary: r r')
  case Nil
  then show ?case by (cases r) (auto split: sum.splits)
next
  case (Cons c cs)
  from Cons.prems(1) obtain es n n' where r: "r = Dir es" and m: "map_of es c = Some n"
    and md: "modify cs f n = Inr n'" and r': "r' = Dir (AList.update c n' es)"
    by (cases r) (auto split: sum.splits option.splits)
  have wes: "wf_entries es" using Cons.prems(2) r by simp
  from wf_entries_map_of [OF wes m] have pc: "plain_name c" and wn: "wf_node n" by simp_all
  have "wf_node n'" using Cons.IH [OF md wn] Cons.prems(3) by blast
  then show ?case using r' wes pc by (simp add: wf_entries_update)
qed

lemma lfs_mkdir_wf: "lfs_mkdir fs p = Inr fs' \<Longrightarrow> wf_node fs \<Longrightarrow> wf_node fs'"
proof -
  assume a: "lfs_mkdir fs p = Inr fs'" and w: "wf_node fs"
  then obtain cs where cs: "path_parts p = Some cs" "cs \<noteq> []"
    and md: "modify (butlast cs) (mkdir_entry (last cs)) fs = Inr fs'"
    by (auto simp: lfs_mkdir_def split: option.splits if_splits)
  have pl: "plain_name (last cs)" using path_parts_plain [OF cs(1)] cs(2) by simp
  show ?thesis
  proof (rule modify_wf [OF md w])
    fix es es' assume "wf_entries es" "mkdir_entry (last cs) es = Inr es'"
    then show "wf_entries es'" using pl
      by (auto simp: mkdir_entry_def wf_entries_snoc split: if_splits)
  qed
qed

lemma lfs_writeFile_wf: "lfs_writeFile fs p data = Inr fs' \<Longrightarrow> wf_node fs \<Longrightarrow> wf_node fs'"
proof -
  assume a: "lfs_writeFile fs p data = Inr fs'" and w: "wf_node fs"
  then obtain cs where cs: "path_parts p = Some cs" "cs \<noteq> []"
    and md: "modify (butlast cs) (write_entry (last cs) data) fs = Inr fs'"
    by (auto simp: lfs_writeFile_def split: option.splits if_splits)
  have pl: "plain_name (last cs)" using path_parts_plain [OF cs(1)] cs(2) by simp
  show ?thesis
  proof (rule modify_wf [OF md w])
    fix es es' assume "wf_entries es" "write_entry (last cs) data es = Inr es'"
    then show "wf_entries es'" using pl
      by (auto simp: write_entry_def wf_entries_update split: option.splits inode.splits)
  qed
qed

lemma ensure_dir_wf: "wf_node fs \<Longrightarrow> wf_node (fst (ensure_dir lightningfs fs db))"
  by (auto simp: ensure_dir_def Let_def lightningfs_def split: sum.splits dest: lfs_mkdir_wf)

lemma sync_asset_wf: "wf_node fs \<Longrightarrow> wf_node (fst (sync_asset lightningfs S db fs a))"
  by (auto simp: sync_asset_def Let_def writeFile_lightningfs split: sum.splits
      dest: lfs_writeFile_wf)

lemma sync_assets_wf: "wf_node fs \<Longrightarrow> wf_node (fst (sync_assets lightningfs S db fs files))"
proof (induction files arbitrary: fs)
  case Nil
  then show ?case by simp
next
  case (Cons a files)
  from Cons.IH [OF sync_asset_wf [OF Cons.prems, of S db a]]
  show ?case by (auto split: prod.splits)
qed

lemma sync_db_wf: "wf_node fs \<Longrightarrow> wf_node (state_of (sync_db fuel lightningfs S fs db))"
proof (cases rule: sync_db_cases [of S db fuel lightningfs fs])
  case (rejected e)
  assume "wf_node fs"
  then show ?thesis using rejected by (simp add: state_of_def)
next
  case (listed files fs1 ev1 fs2 ev2 out r)
  assume w: "wf_node fs"
  have "wf_node fs1" using ensure_dir_wf [OF w, of db] listed(2) by simp
  then have "wf_node fs2" using sync_assets_wf [of fs1 S db files] listed(3) by simp
  then show ?thesis using listed(5) by (simp add: state_of_def)
qed

lemma sync_db_state_fuel:
  "state_of (sync_db fuel P S fs db) = state_of (sync_db fuel' P S fs db)"
  by (simp add: sync_db_def state_of_def split: sum.splits prod.splits)

lemma printTree_root_returns:
  assumes "wf_node fs" and "height fs < fuel"
  shows "snd (printTree fuel lightningfs fs ''/'' []) \<noteq> Diverged"
proof (cases fs)
  case (File d)
  obtain n where "fuel = Suc n" using assms(2) by (cases fuel) auto
  then show ?thesis using File
    by (simp add: lightningfs_def lfs_readdir_def path_parts_slash)
next
  case (Dir es)
  have "printTree fuel lightningfs fs ''/'' [] = (render [] es, Done)"
    using assms Dir by (intro printTree_render [where cs = "[]"]) (simp_all add: path_parts_slash)
  then show ?thesis by simp
qed

lemma sync_db_returns:
  assumes "wf_node fs" and "height (state_of (sync_db fuel lightningfs S fs db)) < fuel"
  shows "snd (snd (sync_db fuel lightningfs S fs db))"
proof (cases rule: sync_db_cases [of S db fuel lightningfs fs])
  case (rejected e)
  then show ?thesis by simp
next
  case (listed files fs1 ev1 fs2 ev2 out r)
  have w2: "wf_node fs2" using sync_db_wf [OF assms(1), of fuel S db] listed(5)
    by (simp add: state_of_def)
  have h: "height fs2 < fuel" using assms(2) listed(5) by (simp add: state_of_def)
  from printTree_root_returns [OF w2 h] listed(4,5) show ?thesis by simp
qed

lemma downloadAssets_returns:
  "wf_node fs \<Longrightarrow> \<exists>N. \<forall>fuel\<ge>N. snd (snd (downloadAssets fuel lightningfs S fs dbs))"
proof (induction dbs arbitrary: fs)
  case Nil
  then show ?case by simp
next
  case (Cons db dbs)
  let ?fs1 = "state_of (sync_db 0 lightningfs S fs db)"
  have w1: "wf_node ?fs1" using Cons.prems by (rule sync_db_wf)
  from Cons.IH [OF w1] obtain N1 where
    N1: "\<forall>fuel\<ge>N1. snd (snd (downloadAssets fuel lightningfs S ?fs1 dbs))" by blast
  show ?case
  proof (intro exI allI impI)
    fix fuel assume f: "max N1 (Suc (height ?fs1)) \<le> fuel"
    obtain fs1 ev1 r1 where s: "sync_db fuel lightningfs S fs db = (fs1, ev1, r1)"
      by (metis prod_cases3)
    have eq: "fs1 = ?fs1"
      using sync_db_state_fuel [of fuel lightningfs S fs db 0] s by (simp add: state_of_def)
    have "height (state_of (sync_db fuel lightningfs S fs db)) < fuel"
      using f eq s by (simp add: state_of_def)
    from sync_db_returns [OF Cons.prems this] s have r1: "r1" by simp
    have "snd (snd (downloadAssets fuel lightningfs S fs1 dbs))" using N1 f eq by simp
    then show "snd (snd (downloadAssets fuel lightningfs S fs (db # dbs)))"
      using s r1 by (auto split: prod.splits)
  qed
qed

section \<open>The scenarios, evaluated\<close>

lemmas client_defs = listDBDir_def fetchDBFileBytes_def read_response_def ensureOk_def
  encodePath_def encodeURIComponent_def unreserved_def backend_def ok_response_def
lemmas lfs_defs = lightningfs_def lfs_stat_def lfs_mkdir_def lfs_writeFile_def lfs_readdir_def
  path_parts_def mkdir_entry_def write_entry_def
lemmas mirror_defs = sync_db_def ensure_dir_def sync_asset_def is_type_def asset_path_def
  outer_catch_def child_path_def Let_def

lemma list_mydb: "listDBDir mydb_store ''mydb'' ''assets'' = Inr [DirEntry_file ''a.png'' ''abc'']"
  by (simp add: client_defs mydb_store_def)

lemma fetch_mydb: "fetchDBFileBytes mydb_store ''mydb'' ''assets/a.png'' = Inr a_png"
  by (simp add: client_defs mydb_store_def)

lemma run_empty:
  "downloadAssets 3 lightningfs mydb_store fs_empty [''mydb''] =
     (Dir [(''mydb'', Dir [])],
      [EvList ''mydb'' ''assets'' True,
       EvStat ''/mydb'' (Inl ENOENT),
       EvMkdir ''/mydb'' True,
       EvStat ''/mydb/assets/a.png'' (Inl ENOENT),
       EvFetch ''mydb'' ''assets/a.png'' True,
       EvWrite ''/mydb/assets/a.png'' a_png False,
       ConsoleError ''Failed to write to lightningfs for mydb/assets/a.png'',
       ConsoleLog (conn_last @ ''mydb'')],
      True)"
  by (simp add: list_mydb fetch_mydb mirror_defs lfs_defs fs_empty_def numeral_3_eq_3)

lemma run_empty_second:
  "downloadAssets 3 lightningfs mydb_store (Dir [(''mydb'', Dir [])]) [''mydb''] =
     (Dir [(''mydb'', Dir [])],
      [EvList ''mydb'' ''assets'' True,
       EvStat ''/mydb'' (Inr Dir_type),
       EvStat ''/mydb/assets/a.png'' (Inl ENOENT),
       EvFetch ''mydb'' ''assets/a.png'' True,
       EvWrite ''/mydb/assets/a.png'' a_png False,
       ConsoleError ''Failed to write to lightningfs for mydb/assets/a.png'',
       ConsoleLog (conn_last @ ''mydb'')],
      True)"
  by (simp add: list_mydb fetch_mydb mirror_defs lfs_defs numeral_3_eq_3)

lemma run_mydb_is_file:
  "downloadAssets 3 lightningfs mydb_store fs_mydb_is_file [''mydb''] =
     (fs_mydb_is_file,
      [EvList ''mydb'' ''assets'' True,
       EvStat ''/mydb'' (Inr File_type),
       EvMkdir ''/mydb'' False,
       ConsoleError ''Failed to make a lightningfs mydb folder'',
       EvStat ''/mydb/assets/a.png'' (Inl ENOENT),
       EvFetch ''mydb'' ''assets/a.png'' True,
       EvWrite ''/mydb/assets/a.png'' a_png False,
       ConsoleError ''Failed to write to lightningfs for mydb/assets/a.png'',
       ConsoleLog (conn_last @ ''mydb'')],
      True)"
  by (simp add: list_mydb fetch_mydb mirror_defs lfs_defs fs_mydb_is_file_def numeral_3_eq_3)


lemma run_mirrored:
  "downloadAssets 4 lightningfs mydb_store fs_mirrored [''mydb''] =
     (fs_mirrored,
      [EvList ''mydb'' ''assets'' True,
       EvStat ''/mydb'' (Inr Dir_type),
       EvStat ''/mydb/assets/a.png'' (Inr File_type),
       ConsoleLog (conn_last @ ''mydb''),
       ConsoleLog (indent_last @ conn_last @ ''assets''),
       ConsoleLog (indent_last @ indent_last @ conn_last @ ''a.png'')],
      True)"
  by (simp add: list_mydb fetch_mydb mirror_defs lfs_defs fs_mirrored_def eval_nat_numeral)




lemma list_partial:
  "listDBDir partial_store ''mydb'' ''assets'' =
     Inr [DirEntry_file ''a.png'' ''abc'', DirEntry_file ''b.png'' ''def'']"
  by (simp add: client_defs partial_store_def)

lemma fetch_partial_a:
  "fetchDBFileBytes partial_store ''mydb'' ''assets/a.png'' =
     Inl (NotOk ''fetchDBFileBytes'' 500 ''Internal Server Error'')"
  by (simp add: client_defs partial_store_def)

lemma fetch_partial_b: "fetchDBFileBytes partial_store ''mydb'' ''assets/b.png'' = Inr [66]"
  by (simp add: client_defs partial_store_def)

lemma assets_partial:
  "sync_assets lightningfs partial_store ''mydb'' fs_assets_dir
     [DirEntry_file ''a.png'' ''abc'', DirEntry_file ''b.png'' ''def''] =
   (Dir [(''mydb'', Dir [(''assets'', Dir [(''b.png'', File [66])])])],
    [EvStat ''/mydb/assets/a.png'' (Inl ENOENT),
     EvFetch ''mydb'' ''assets/a.png'' False,
     ConsoleError ''Failed to write to lightningfs for mydb/assets/a.png'',
     EvStat ''/mydb/assets/b.png'' (Inl ENOENT),
     EvFetch ''mydb'' ''assets/b.png'' True,
     EvWrite ''/mydb/assets/b.png'' [66] True,
     ConsoleLog ''Wrote asset file at mydb/assets/b.png''])"
  by (simp add: fetch_partial_a fetch_partial_b mirror_defs lfs_defs fs_assets_dir_def)

lemma fails_partial_a:
  "asset_fails lightningfs partial_store ''mydb'' fs_assets_dir (DirEntry_file ''a.png'' ''abc'')"
  by (simp add: asset_fails_def fetch_partial_a mirror_defs lfs_defs fs_assets_dir_def)

section \<open>The claims about the asset mirror\<close>

text \<open>
  C4. Whatever the filesystem and the store do, the asset loop asks \<open>stat\<close> about every
  entry of the listing, in order: no failure ends it. An entry that fails (it is not there
  as a file, and its fetch or the write of its bytes is rejected) leaves the filesystem as
  it was and ends with the error line for that entry. The entries after it are then
  processed exactly as if the failing entry were not in the listing: the final filesystem
  is that of the listing without it, and the trace is the trace of the entries before,
  the failing entry's own steps, and the trace of the entries after.
\<close>

theorem per_file_failure_isolation:
  "stat_paths (snd (sync_assets P S db fs files)) = map (\<lambda>a. asset_path db (entry_name a)) files \<and>
   (asset_fails P S db fs a \<longrightarrow>
      fst (sync_asset P S db fs a) = fs \<and>
      last (snd (sync_asset P S db fs a)) =
        ConsoleError (''Failed to write to lightningfs for '' @ db @ ''/assets/'' @ entry_name a)) \<and>
   (asset_fails P S db (fst (sync_assets P S db fs xs)) a \<longrightarrow>
      fst (sync_assets P S db fs (xs @ a # ys)) = fst (sync_assets P S db fs (xs @ ys)) \<and>
      snd (sync_assets P S db fs (xs @ a # ys)) =
        snd (sync_assets P S db fs xs) @
        snd (sync_asset P S db (fst (sync_assets P S db fs xs)) a) @
        snd (sync_assets P S db (fst (sync_assets P S db fs xs)) ys) \<and>
      snd (sync_assets P S db fs (xs @ ys)) =
        snd (sync_assets P S db fs xs) @
        snd (sync_assets P S db (fst (sync_assets P S db fs xs)) ys))"
proof (intro conjI impI)
  show "stat_paths (snd (sync_assets P S db fs files)) = map (\<lambda>a. asset_path db (entry_name a)) files"
    by (rule sync_assets_stat_paths)
next
  assume f: "asset_fails P S db fs a"
  from asset_fails_step [OF f]
  show "fst (sync_asset P S db fs a) = fs"
    and "last (snd (sync_asset P S db fs a)) =
        ConsoleError (''Failed to write to lightningfs for '' @ db @ ''/assets/'' @ entry_name a)"
    by simp_all
next
  assume f: "asset_fails P S db (fst (sync_assets P S db fs xs)) a"
  note st = asset_fails_step [OF f]
  show "fst (sync_assets P S db fs (xs @ a # ys)) = fst (sync_assets P S db fs (xs @ ys))"
    using st by (auto simp: sync_assets_append split: prod.splits)
  show "snd (sync_assets P S db fs (xs @ a # ys)) =
        snd (sync_assets P S db fs xs) @
        snd (sync_asset P S db (fst (sync_assets P S db fs xs)) a) @
        snd (sync_assets P S db (fst (sync_assets P S db fs xs)) ys)"
    using st by (auto simp: sync_assets_append split: prod.splits)
  show "snd (sync_assets P S db fs (xs @ ys)) =
        snd (sync_assets P S db fs xs) @
        snd (sync_assets P S db (fst (sync_assets P S db fs xs)) ys)"
    by (auto simp: sync_assets_append split: prod.splits)
qed

theorem per_file_failure_isolation_witness:
  "asset_fails lightningfs partial_store ''mydb'' fs_assets_dir (DirEntry_file ''a.png'' ''abc'') \<and>
   fst (sync_asset lightningfs partial_store ''mydb'' fs_assets_dir (DirEntry_file ''a.png'' ''abc'')) =
     fs_assets_dir \<and>
   stat_paths (snd (sync_assets lightningfs partial_store ''mydb'' fs_assets_dir
      [DirEntry_file ''a.png'' ''abc'', DirEntry_file ''b.png'' ''def''])) =
     [''/mydb/assets/a.png'', ''/mydb/assets/b.png''] \<and>
   fst (sync_assets lightningfs partial_store ''mydb'' fs_assets_dir
      [DirEntry_file ''a.png'' ''abc'', DirEntry_file ''b.png'' ''def'']) =
     fst (sync_assets lightningfs partial_store ''mydb'' fs_assets_dir [DirEntry_file ''b.png'' ''def'']) \<and>
   fst (sync_assets lightningfs partial_store ''mydb'' fs_assets_dir
      [DirEntry_file ''a.png'' ''abc'', DirEntry_file ''b.png'' ''def'']) =
     Dir [(''mydb'', Dir [(''assets'', Dir [(''b.png'', File [66])])])]"
  using per_file_failure_isolation [where P = lightningfs and S = partial_store and db = "''mydb''"
      and fs = fs_assets_dir and a = "DirEntry_file ''a.png'' ''abc''" and xs = "[]"
      and ys = "[DirEntry_file ''b.png'' ''def'']"
      and files = "[DirEntry_file ''a.png'' ''abc'', DirEntry_file ''b.png'' ''def'']"]
  by (simp add: asset_fails_def fetch_partial_a fetch_partial_b mirror_defs lfs_defs
      fs_assets_dir_def)




text \<open>
  C1. The end-to-end scenario on lightning-fs: the listing of \<open>mydb\<close> holds the file
  \<open>a.png\<close> and the local filesystem is empty. The run creates \<open>/mydb\<close>, fetches the
  bytes, and the write of \<open>/mydb/assets/a.png\<close> is rejected, since nothing creates
  \<open>/mydb/assets\<close>; the rejection is logged. After the run \<open>/mydb\<close> is a directory and
  \<open>/mydb/assets/a.png\<close> does not exist, and a second run fetches \<open>a.png\<close> again.
\<close>

theorem empty_fs_scenario_asset_not_written:
  "state_of (downloadAssets 3 lightningfs mydb_store fs_empty [''mydb'']) = Dir [(''mydb'', Dir [])] \<and>
   lfs_stat (state_of (downloadAssets 3 lightningfs mydb_store fs_empty [''mydb''])) ''/mydb'' =
     Inr Dir_type \<and>
   lfs_stat (state_of (downloadAssets 3 lightningfs mydb_store fs_empty [''mydb'']))
     ''/mydb/assets/a.png'' = Inl ENOENT \<and>
   trace_of (downloadAssets 3 lightningfs mydb_store fs_empty [''mydb'']) =
     [EvList ''mydb'' ''assets'' True,
      EvStat ''/mydb'' (Inl ENOENT),
      EvMkdir ''/mydb'' True,
      EvStat ''/mydb/assets/a.png'' (Inl ENOENT),
      EvFetch ''mydb'' ''assets/a.png'' True,
      EvWrite ''/mydb/assets/a.png'' a_png False,
      ConsoleError ''Failed to write to lightningfs for mydb/assets/a.png'',
      ConsoleLog (conn_last @ ''mydb'')] \<and>
   fetches (trace_of (downloadAssets 3 lightningfs mydb_store
      (state_of (downloadAssets 3 lightningfs mydb_store fs_empty [''mydb''])) [''mydb''])) =
     [(''mydb'', ''assets/a.png'')]"
  by (simp add: run_empty run_empty_second trace_of_def state_of_def lfs_stat_def path_parts_def
      del: downloadAssets.simps)

text \<open>
  C3, as stated, fails: where \<open>/mydb\<close> is a file, \<open>stat\<close> reports a file, \<open>mkdir\<close> is
  rejected and the rejection only logged, and the asset loop still fetches \<open>a.png\<close> and
  attempts the write of \<open>/mydb/assets/a.png\<close> with no directory \<open>/mydb\<close> in place.
\<close>

theorem write_attempted_without_directory:
  "lfs_stat fs_mydb_is_file ''/mydb'' = Inr File_type \<and>
   state_of (downloadAssets 3 lightningfs mydb_store fs_mydb_is_file [''mydb'']) = fs_mydb_is_file \<and>
   trace_of (downloadAssets 3 lightningfs mydb_store fs_mydb_is_file [''mydb'']) =
     [EvList ''mydb'' ''assets'' True,
      EvStat ''/mydb'' (Inr File_type),
      EvMkdir ''/mydb'' False,
      ConsoleError ''Failed to make a lightningfs mydb folder'',
      EvStat ''/mydb/assets/a.png'' (Inl ENOENT),
      EvFetch ''mydb'' ''assets/a.png'' True,
      EvWrite ''/mydb/assets/a.png'' a_png False,
      ConsoleError ''Failed to write to lightningfs for mydb/assets/a.png'',
      ConsoleLog (conn_last @ ''mydb'')]"
  by (simp add: run_mydb_is_file trace_of_def state_of_def del: downloadAssets.simps)
    (simp add: lfs_stat_def path_parts_def fs_mydb_is_file_def)

lemma ensure_dir_shape:
  "stat_paths (snd (ensure_dir P fs db)) = [''/'' @ db] \<and> write_paths (snd (ensure_dir P fs db)) = []"
  by (auto simp: ensure_dir_def Let_def split: sum.splits)

lemma ensure_dir_succeeds:
  "EvMkdir (''/'' @ db) False \<notin> set (snd (ensure_dir lightningfs fs db)) \<Longrightarrow>
   lfs_stat (fst (ensure_dir lightningfs fs db)) (''/'' @ db) = Inr Dir_type"
  by (auto simp: ensure_dir_def Let_def is_type_def lightningfs_def
      split: sum.splits if_splits dest: lfs_mkdir_makes_dir)

lemma ensure_dir_fails:
  "EvMkdir (''/'' @ db) False \<in> set (snd (ensure_dir lightningfs fs db)) \<Longrightarrow>
   fst (ensure_dir lightningfs fs db) = fs \<and> lfs_stat fs (''/'' @ db) \<noteq> Inr Dir_type \<and>
   ConsoleError (''Failed to make a lightningfs '' @ db @ '' folder'')
     \<in> set (snd (ensure_dir lightningfs fs db))"
  by (auto simp: ensure_dir_def Let_def is_type_def lightningfs_def
      split: sum.splits if_splits)

lemma sync_assets_keeps_stat:
  "lfs_stat fs p = Inr t \<Longrightarrow> lfs_stat (fst (sync_assets lightningfs S db fs xs)) p = Inr t"
proof -
  assume a: "lfs_stat fs p = Inr t"
  obtain fs' ev where s: "sync_assets lightningfs S db fs xs = (fs', ev)"
    by (cases "sync_assets lightningfs S db fs xs")
  from grows_stat [OF sync_assets_grows [OF s] a] s show ?thesis by simp
qed

lemma catch_write_paths:
  "write_paths (case r of Threw e \<Rightarrow> outer_catch db (FsError e) | _ \<Rightarrow> []) = []"
  by (cases r) (simp_all add: outer_catch_def)

text \<open>
  C3, amended. For a database whose listing succeeds, the trace of its sync is the
  listing, then the ensure step, then the asset loop, then lines that write nothing. The
  ensure step asks \<open>stat\<close> about \<open>/db\<close> and writes no file. When it does not end in a
  rejected \<open>mkdir\<close>, \<open>/db\<close> is a directory on lightning-fs when the asset loop starts and
  before each of its entries. When \<open>mkdir\<close> is rejected, the filesystem is unchanged,
  \<open>/db\<close> is not a directory, the failure is logged, and the asset loop runs all the same.
\<close>

theorem directory_first:
  "listDBDir S db ''assets'' = Inr files \<longrightarrow>
     (\<exists>rest. trace_of (sync_db fuel lightningfs S fs db) =
        EvList db ''assets'' True # snd (ensure_dir lightningfs fs db) @
        snd (sync_assets lightningfs S db (fst (ensure_dir lightningfs fs db)) files) @ rest \<and>
        write_paths rest = []) \<and>
     stat_paths (snd (ensure_dir lightningfs fs db)) = [''/'' @ db] \<and>
     write_paths (snd (ensure_dir lightningfs fs db)) = [] \<and>
     (EvMkdir (''/'' @ db) False \<notin> set (snd (ensure_dir lightningfs fs db)) \<longrightarrow>
        (\<forall>k. lfs_stat (fst (sync_assets lightningfs S db (fst (ensure_dir lightningfs fs db))
                               (take k files))) (''/'' @ db) = Inr Dir_type)) \<and>
     (EvMkdir (''/'' @ db) False \<in> set (snd (ensure_dir lightningfs fs db)) \<longrightarrow>
        fst (ensure_dir lightningfs fs db) = fs \<and>
        lfs_stat fs (''/'' @ db) \<noteq> Inr Dir_type \<and>
        ConsoleError (''Failed to make a lightningfs '' @ db @ '' folder'')
          \<in> set (snd (ensure_dir lightningfs fs db)))"
proof (intro impI conjI allI)
  assume l: "listDBDir S db ''assets'' = Inr files"
  obtain fs1 ev1 where e: "ensure_dir lightningfs fs db = (fs1, ev1)"
    by (cases "ensure_dir lightningfs fs db")
  obtain fs2 ev2 where s: "sync_assets lightningfs S db fs1 files = (fs2, ev2)"
    by (cases "sync_assets lightningfs S db fs1 files")
  obtain out r where p: "printTree fuel lightningfs fs2 ''/'' [] = (out, r)"
    by (cases "printTree fuel lightningfs fs2 ''/'' []")
  let ?rest = "map ConsoleLog out @ (case r of Threw e \<Rightarrow> outer_catch db (FsError e) | _ \<Rightarrow> [])"
  have "trace_of (sync_db fuel lightningfs S fs db) = EvList db ''assets'' True # ev1 @ ev2 @ ?rest"
    using sync_db_Inr [OF l e s p] by (simp add: trace_of_def)
  moreover have "write_paths ?rest = []"
    by (simp add: write_paths_append write_paths_logs catch_write_paths)
  ultimately show "\<exists>rest. trace_of (sync_db fuel lightningfs S fs db) =
        EvList db ''assets'' True # snd (ensure_dir lightningfs fs db) @
        snd (sync_assets lightningfs S db (fst (ensure_dir lightningfs fs db)) files) @ rest \<and>
        write_paths rest = []"
    using e s by auto
next
  show "stat_paths (snd (ensure_dir lightningfs fs db)) = [''/'' @ db]"
    using ensure_dir_shape [of lightningfs fs db] by simp
  show "write_paths (snd (ensure_dir lightningfs fs db)) = []"
    using ensure_dir_shape [of lightningfs fs db] by simp
next
  fix k
  assume "EvMkdir (''/'' @ db) False \<notin> set (snd (ensure_dir lightningfs fs db))"
  then have "lfs_stat (fst (ensure_dir lightningfs fs db)) (''/'' @ db) = Inr Dir_type"
    by (rule ensure_dir_succeeds)
  then show "lfs_stat (fst (sync_assets lightningfs S db (fst (ensure_dir lightningfs fs db))
                               (take k files))) (''/'' @ db) = Inr Dir_type"
    by (rule sync_assets_keeps_stat)
next
  assume f: "EvMkdir (''/'' @ db) False \<in> set (snd (ensure_dir lightningfs fs db))"
  from ensure_dir_fails [OF f]
  show "fst (ensure_dir lightningfs fs db) = fs"
    and "lfs_stat fs (''/'' @ db) \<noteq> Inr Dir_type"
    and "ConsoleError (''Failed to make a lightningfs '' @ db @ '' folder'')
          \<in> set (snd (ensure_dir lightningfs fs db))"
    by simp_all
qed

theorem directory_first_witness:
  "listDBDir mydb_store ''mydb'' ''assets'' = Inr [DirEntry_file ''a.png'' ''abc''] \<and>
   EvMkdir ''/mydb'' False \<notin> set (snd (ensure_dir lightningfs fs_empty ''mydb'')) \<and>
   lfs_stat (fst (ensure_dir lightningfs fs_empty ''mydb'')) ''/mydb'' = Inr Dir_type \<and>
   lfs_stat (fst (sync_assets lightningfs mydb_store ''mydb''
                    (fst (ensure_dir lightningfs fs_empty ''mydb''))
                    (take 1 [DirEntry_file ''a.png'' ''abc'']))) ''/mydb'' = Inr Dir_type \<and>
   EvMkdir ''/mydb'' False \<in> set (snd (ensure_dir lightningfs fs_mydb_is_file ''mydb'')) \<and>
   fst (ensure_dir lightningfs fs_mydb_is_file ''mydb'') = fs_mydb_is_file \<and>
   ConsoleError ''Failed to make a lightningfs mydb folder''
     \<in> set (snd (ensure_dir lightningfs fs_mydb_is_file ''mydb''))"
  using directory_first [where S = mydb_store and db = "''mydb''" and fs = fs_empty
      and files = "[DirEntry_file ''a.png'' ''abc'']" and fuel = 3]
    directory_first [where S = mydb_store and db = "''mydb''" and fs = fs_mydb_is_file
      and files = "[DirEntry_file ''a.png'' ''abc'']" and fuel = 3]
  by (simp add: list_mydb fetch_mydb mirror_defs lfs_defs fs_empty_def fs_mydb_is_file_def)

section \<open>The claim about printTree\<close>

lemma printTree_loop_level:
  "snd (printTree_loop n P fs dir pfx entries) = Done \<Longrightarrow>
   fst (printTree_loop n P fs dir pfx entries) = level_lines n P fs dir pfx entries"
proof (induction entries)
  case Nil
  then show ?case by simp
next
  case (Cons nm rest)
  then show ?case
    by (auto simp: Let_def split: sum.splits prod.splits outcome.splits if_splits)
qed

lemma printTree_level:
  "readdir P fs dir = Inr entries \<Longrightarrow> snd (printTree (Suc n) P fs dir pfx) = Done \<Longrightarrow>
   fst (printTree (Suc n) P fs dir pfx) = level_lines n P fs dir pfx entries"
  using printTree_loop_level [of n P fs dir pfx entries] by simp

lemma printTree_loop_prefix:
  "prefix (fst (printTree_loop n P fs dir pfx entries)) (level_lines n P fs dir pfx entries)"
proof (induction entries)
  case Nil
  then show ?case by simp
next
  case (Cons nm rest)
  then show ?case
    by (auto simp: Let_def split: sum.splits prod.splits outcome.splits if_splits)
qed

text \<open>
  C9. For any filesystem, the lines \<open>printTree\<close> logs for a directory are, when it
  returns, exactly one block per name that \<open>readdir\<close> returned, in that order (never
  sorted): the line of the name and directly after it the lines of \<open>printTree\<close> on that
  subdirectory; when it throws or does not return they are a prefix of that. On a tree of
  lightning-fs, \<open>printTree\<close> from a directory \<open>dir\<close> returns, given fuel for the height
  of the tree, and logs exactly the specification's listing: the depth-first pre-order
  walk of the stored tree, every directory's entries in the order \<open>readdir\<close> returns
  them. The last part is the call with the default arguments, from the root with the
  empty prefix.
\<close>

theorem printTree_listing_order:
  "(readdir P fs0 dir0 = Inr entries \<and> snd (printTree (Suc n) P fs0 dir0 pfx0) = Done \<longrightarrow>
      fst (printTree (Suc n) P fs0 dir0 pfx0) = level_lines n P fs0 dir0 pfx0 entries) \<and>
   (readdir P fs0 dir0 = Inr entries \<longrightarrow>
      prefix (fst (printTree (Suc n) P fs0 dir0 pfx0)) (level_lines n P fs0 dir0 pfx0 entries)) \<and>
   (wf_node fs \<and> path_parts dir = Some cs \<and> lookup fs cs = Some (Dir es) \<and>
    height (Dir es) \<le> fuel \<longrightarrow>
      readdir lightningfs fs dir = Inr (map fst es) \<and>
      printTree fuel lightningfs fs dir pfx = (render pfx es, Done)) \<and>
   (wf_node (Dir es) \<and> height (Dir es) \<le> fuel \<longrightarrow>
      printTree fuel lightningfs (Dir es) ''/'' [] = (render [] es, Done))"
proof (intro conjI impI)
  assume "readdir P fs0 dir0 = Inr entries \<and> snd (printTree (Suc n) P fs0 dir0 pfx0) = Done"
  then show "fst (printTree (Suc n) P fs0 dir0 pfx0) = level_lines n P fs0 dir0 pfx0 entries"
    using printTree_level [of P fs0 dir0 entries n pfx0] by blast
next
  assume "readdir P fs0 dir0 = Inr entries"
  then show "prefix (fst (printTree (Suc n) P fs0 dir0 pfx0)) (level_lines n P fs0 dir0 pfx0 entries)"
    using printTree_loop_prefix [of n P fs0 dir0 pfx0 entries] by simp
next
  assume a: "wf_node fs \<and> path_parts dir = Some cs \<and> lookup fs cs = Some (Dir es) \<and>
    height (Dir es) \<le> fuel"
  then show "readdir lightningfs fs dir = Inr (map fst es)"
    by (simp add: lightningfs_def lfs_readdir_dir)
  from a show "printTree fuel lightningfs fs dir pfx = (render pfx es, Done)"
    by (intro printTree_render [where cs = cs]) simp_all
next
  assume a: "wf_node (Dir es) \<and> height (Dir es) \<le> fuel"
  then show "printTree fuel lightningfs (Dir es) ''/'' [] = (render [] es, Done)"
    by (intro printTree_render [where cs = "[]"]) (simp_all add: path_parts_slash)
qed

theorem printTree_listing_order_witness:
  "wf_node fs_two \<and> path_parts ''/mydb'' = Some [''mydb''] \<and>
   lookup fs_two [''mydb''] =
     Some (Dir [(''assets'', Dir [(''b.png'', File [1]), (''a.png'', File a_png)]),
                (''db.sqlite'', File [2])]) \<and>
   height fs_two \<le> 3 \<and>
   readdir lightningfs fs_two ''/mydb'' = Inr [''assets'', ''db.sqlite''] \<and>
   snd (printTree 3 lightningfs fs_two ''/mydb'' ''> '') = Done \<and>
   level_lines 2 lightningfs fs_two ''/mydb'' ''> '' [''assets'', ''db.sqlite''] =
     [''> '' @ conn_mid @ ''assets'',
      ''> '' @ indent_mid @ conn_mid @ ''b.png'',
      ''> '' @ indent_mid @ conn_last @ ''a.png'',
      ''> '' @ conn_last @ ''db.sqlite''] \<and>
   printTree 3 lightningfs fs_two ''/mydb'' ''> '' =
     ([''> '' @ conn_mid @ ''assets'',
       ''> '' @ indent_mid @ conn_mid @ ''b.png'',
       ''> '' @ indent_mid @ conn_last @ ''a.png'',
       ''> '' @ conn_last @ ''db.sqlite''], Done) \<and>
   printTree 3 lightningfs fs_two ''/'' [] =
     ([conn_mid @ ''mydb'',
       indent_mid @ conn_mid @ ''assets'',
       indent_mid @ indent_mid @ conn_mid @ ''b.png'',
       indent_mid @ indent_mid @ conn_last @ ''a.png'',
       indent_mid @ conn_last @ ''db.sqlite'',
       conn_last @ ''other''], Done)"
  using printTree_listing_order [where fs = fs_two and dir = "''/mydb''" and cs = "[''mydb'']"
      and es = "[(''assets'', Dir [(''b.png'', File [1]), (''a.png'', File a_png)]),
                (''db.sqlite'', File [2])]" and fuel = 3 and pfx = "''> ''"
      and P = lightningfs and ?fs0.0 = fs_two and ?dir0.0 = "''/mydb''" and n = 2
      and ?pfx0.0 = "''> ''" and entries = "[''assets'', ''db.sqlite'']"]
    printTree_listing_order [where fs = fs_two and dir = "''/''" and cs = "[]"
      and es = "[(''mydb'', Dir [(''assets'', Dir [(''b.png'', File [1]), (''a.png'', File a_png)]),
                          (''db.sqlite'', File [2])]),
                 (''other'', Dir [])]" and fuel = 3 and pfx = "[]"
      and P = lightningfs and ?fs0.0 = fs_two and ?dir0.0 = "''/''" and n = 2
      and ?pfx0.0 = "[]" and entries = "[''mydb'', ''other'']"]
  by (simp add: fs_two_def plain_name_def path_parts_def child_path_def lfs_defs
      eval_nat_numeral)

end
